(* ===== verification/Prelude.thy ===== *)
theory Prelude
  imports Main "HOL-Library.Word"
begin

text \<open>
  Shared vocabulary of the development: the machine integer types of the Rust code, the
  panics a Rust function can end in, the sequencing of computations that may panic, integer
  arithmetic in both build profiles (with and without overflow checks), and big endian
  reading and writing.

  A computation that may panic is a value of type \<open>panic + 'a\<close>; \<open>Inl\<close> is the
  panic. \<open>rbind\<close> is sequencing (the statement separator of Rust).
\<close>

section \<open>Types\<close>

type_synonym u8 = "8 word"
type_synonym u16 = "16 word"
type_synonym u32 = "32 word"
type_synonym u64 = "64 word"
type_synonym i32 = "32 word"
type_synonym i64 = "64 word"
type_synonym bytes = "u8 list"

text \<open>
  The reasons for which the modelled code panics. Each constructor names the Rust construct
  that raises the panic.
\<close>

datatype panic =
    ArithmeticOverflow      \<comment> \<open>overflow check of a debug build\<close>
  | CapacityOverflow        \<comment> \<open>\<open>BytesMut::reserve\<close> beyond the address space\<close>
  | BufferFull              \<comment> \<open>\<open>BufMut::put_*\<close> without remaining capacity\<close>
  | SplitOutOfBounds        \<comment> \<open>\<open>BytesMut::split_to\<close> beyond the length\<close>
  | SliceOutOfBounds        \<comment> \<open>indexing a slice beyond its length\<close>
  | UnwrapNone              \<comment> \<open>\<open>Option::unwrap\<close> or \<open>expect\<close> on \<open>None\<close>\<close>
  | UnwrapErr               \<comment> \<open>\<open>Result::unwrap\<close> or \<open>expect\<close> on \<open>Err\<close>\<close>
  | ExplicitPanic           \<comment> \<open>\<open>panic!\<close>\<close>
  | LockPoisoned            \<comment> \<open>\<open>Mutex::lock().unwrap()\<close> on a poisoned mutex\<close>

named_theorems wire_simps "equations of the byte level functions"
named_theorems inv_intros "preservation of the components' invariants"

section \<open>Sequencing computations that may panic\<close>

definition rbind :: "'e + 'a \<Rightarrow> ('a \<Rightarrow> 'e + 'b) \<Rightarrow> 'e + 'b" where
  "rbind m f = (case m of Inl e \<Rightarrow> Inl e | Inr a \<Rightarrow> f a)"

lemma rbind_simps [simp]:
  "rbind (Inl e) f = Inl e"
  "rbind (Inr a) f = f a"
  by (simp_all add: rbind_def)

lemma rbind_Inr_iff: "rbind m f = Inr b \<longleftrightarrow> (\<exists>a. m = Inr a \<and> f a = Inr b)"
  by (cases m) auto

lemma rbind_Inl_iff: "rbind m f = Inl e \<longleftrightarrow> m = Inl e \<or> (\<exists>a. m = Inr a \<and> f a = Inl e)"
  by (cases m) auto

lemma rbind_InrE [elim!]:
  assumes "rbind m f = Inr b"
  obtains a where "m = Inr a" and "f a = Inr b"
  using assms by (auto simp: rbind_Inr_iff)

lemma rbind_cong [fundef_cong]:
  "m = m' \<Longrightarrow> (\<And>a. m' = Inr a \<Longrightarrow> f a = g a) \<Longrightarrow> rbind m f = rbind m' g"
  by (cases m') auto

lemma rbind_assoc: "rbind (rbind m f) g = rbind m (\<lambda>a. rbind (f a) g)"
  by (cases m) auto

text \<open>\<open>Option::unwrap\<close> and \<open>Option::expect\<close>.\<close>

definition unwrap_opt :: "'a option \<Rightarrow> panic + 'a" where
  "unwrap_opt x = (case x of None \<Rightarrow> Inl UnwrapNone | Some a \<Rightarrow> Inr a)"

text \<open>\<open>Result::unwrap\<close> and \<open>Result::expect\<close>.\<close>

definition unwrap_res :: "'e + 'a \<Rightarrow> panic + 'a" where
  "unwrap_res x = (case x of Inl _ \<Rightarrow> Inl UnwrapErr | Inr a \<Rightarrow> Inr a)"

lemma unwrap_simps [simp]:
  "unwrap_opt None = Inl UnwrapNone"
  "unwrap_opt (Some a) = Inr a"
  "unwrap_res (Inl e) = Inl UnwrapErr"
  "unwrap_res (Inr a) = Inr a"
  by (simp_all add: unwrap_opt_def unwrap_res_def)

section \<open>Integer arithmetic of both build profiles\<close>

text \<open>
  The first argument says whether overflow checks are compiled in (\<open>debug\<close> profile); without
  them the result wraps around.
\<close>

definition add_u32 :: "bool \<Rightarrow> u32 \<Rightarrow> u32 \<Rightarrow> panic + u32" where
  "add_u32 ovf a b =
     (if ovf \<and> 2 ^ 32 \<le> unat a + unat b then Inl ArithmeticOverflow else Inr (a + b))"

definition sub_u32 :: "bool \<Rightarrow> u32 \<Rightarrow> u32 \<Rightarrow> panic + u32" where
  "sub_u32 ovf a b = (if ovf \<and> a < b then Inl ArithmeticOverflow else Inr (a - b))"

definition add_i32 :: "bool \<Rightarrow> i32 \<Rightarrow> i32 \<Rightarrow> panic + i32" where
  "add_i32 ovf a b =
     (if ovf \<and> (sint a + sint b < - (2 ^ 31) \<or> 2 ^ 31 \<le> sint a + sint b)
      then Inl ArithmeticOverflow else Inr (a + b))"

text \<open>
  \<open>usize\<close> is 64 bits wide; lengths are natural numbers, so subtraction below zero and
  addition beyond the width are the two cases to write out.
\<close>

definition sub_usize :: "bool \<Rightarrow> nat \<Rightarrow> nat \<Rightarrow> panic + nat" where
  "sub_usize ovf a b =
     (if b \<le> a then Inr (a - b)
      else if ovf then Inl ArithmeticOverflow else Inr (2 ^ 64 + a - b))"

definition add_usize :: "bool \<Rightarrow> nat \<Rightarrow> nat \<Rightarrow> panic + nat" where
  "add_usize ovf a b =
     (if a + b < 2 ^ 64 then Inr (a + b)
      else if ovf then Inl ArithmeticOverflow else Inr ((a + b) mod 2 ^ 64))"

text \<open>The cast \<open>i32 as usize\<close> sign extends to 64 bits.\<close>

definition i32_as_usize :: "i32 \<Rightarrow> nat" where
  "i32_as_usize w = unat (scast w :: u64)"

lemma i32_as_usize_nonneg:
  assumes "n < 2 ^ 31"
  shows "i32_as_usize (word_of_nat n) = n"
proof -
  have s: "sint (word_of_nat n :: i32) = int n"
    using assms by (simp add: signed_of_nat signed_take_bit_int_eq_self)
  have "uint (scast (word_of_nat n :: i32) :: u64) = int n mod 2 ^ 64"
    by (simp only: scast_eq s uint_word_of_int) simp
  also have "\<dots> = int n" using assms by simp
  finally show ?thesis by (simp only: i32_as_usize_def unat_eq_nat_uint nat_int)
qed

lemma i32_as_usize_negative:
  assumes "sint w < 0"
  shows "2 ^ 63 \<le> i32_as_usize w"
proof -
  have lo: "- (2 ^ 31) \<le> sint w" using sint_ge [of w] by simp
  have "uint (scast w :: u64) = sint w mod 2 ^ 64"
    by (simp only: scast_eq uint_word_of_int) simp
  also have "\<dots> = sint w + 2 ^ 64"
    using assms lo by (subst mod_add_self2 [symmetric], subst mod_pos_pos_trivial) auto
  finally have "2 ^ 63 \<le> uint (scast w :: u64)" using lo by simp
  then show ?thesis
    unfolding i32_as_usize_def unat_eq_nat_uint by (subst le_nat_iff) simp_all
qed

section \<open>Big endian integers\<close>

text \<open>
  \<open>be_bytes k n\<close> is the \<open>k\<close> byte big endian form of \<open>n\<close> (what the \<open>put_uN_be\<close>
  methods append); \<open>be_val\<close> reads such a form (\<open>BigEndian::read_*\<close>).
\<close>

primrec be_bytes :: "nat \<Rightarrow> nat \<Rightarrow> bytes" where
  "be_bytes 0 n = []"
| "be_bytes (Suc k) n = be_bytes k (n div 256) @ [word_of_nat (n mod 256)]"

definition be_val :: "bytes \<Rightarrow> nat" where
  "be_val bs = foldl (\<lambda>acc b. acc * 256 + unat b) 0 bs"

definition read_i32 :: "bytes \<Rightarrow> i32" where
  "read_i32 bs = word_of_nat (be_val bs)"

definition read_i64 :: "bytes \<Rightarrow> i64" where
  "read_i64 bs = word_of_nat (be_val bs)"

definition read_u16 :: "bytes \<Rightarrow> u16" where
  "read_u16 bs = word_of_nat (be_val bs)"

lemma length_be_bytes [simp]: "length (be_bytes k n) = k"
  by (induction k arbitrary: n) auto

lemma be_bytes_Nil [simp]: "be_bytes k n = [] \<longleftrightarrow> k = 0"
  by (cases k) simp_all

lemma be_bytes_4:
  "be_bytes 4 n =
     [word_of_nat (n div 256 div 256 div 256 mod 256), word_of_nat (n div 256 div 256 mod 256),
      word_of_nat (n div 256 mod 256), word_of_nat (n mod 256)]"
proof -
  have "be_bytes (Suc (Suc (Suc (Suc 0)))) n =
     [word_of_nat (n div 256 div 256 div 256 mod 256), word_of_nat (n div 256 div 256 mod 256),
      word_of_nat (n div 256 mod 256), word_of_nat (n mod 256)]"
    by (simp only: be_bytes.simps append_Nil append_Cons)
  moreover have "Suc (Suc (Suc (Suc 0))) = 4" by simp
  ultimately show ?thesis by (simp only:)
qed

lemma be_val_snoc: "be_val (bs @ [b]) = be_val bs * 256 + unat b"
  by (simp add: be_val_def)

lemma be_val_be_bytes [wire_simps]: "be_val (be_bytes k n) = n mod 256 ^ k"
proof (induction k arbitrary: n)
  case 0
  then show ?case by (simp add: be_val_def)
next
  case (Suc k)
  have byte: "unat (word_of_nat (n mod 256) :: u8) = n mod 256"
    by (simp add: unat_of_nat)
  have "be_val (be_bytes (Suc k) n) = (n div 256 mod 256 ^ k) * 256 + n mod 256"
    by (simp add: be_val_snoc Suc.IH byte)
  also have "\<dots> = n mod (256 * 256 ^ k)"
    by (subst mod_mult2_eq) simp
  finally show ?case by simp
qed

lemma read_be_bytes [wire_simps]:
  "n < 2 ^ 32 \<Longrightarrow> read_i32 (be_bytes 4 n) = word_of_nat n"
  "read_i64 (be_bytes 8 (unat t)) = t"
  "read_u16 (be_bytes 2 (unat a)) = a"
proof -
  show "n < 2 ^ 32 \<Longrightarrow> read_i32 (be_bytes 4 n) = word_of_nat n"
    by (simp add: read_i32_def be_val_be_bytes)
  have "unat t < 256 ^ 8" using unsigned_less [of t] by simp
  then show "read_i64 (be_bytes 8 (unat t)) = t"
    by (simp add: read_i64_def be_val_be_bytes)
  have "unat a < 256 ^ 2" using unsigned_less [of a] by simp
  then show "read_u16 (be_bytes 2 (unat a)) = a"
    by (simp add: read_u16_def be_val_be_bytes)
qed

section \<open>Invariants of transition systems\<close>

text \<open>The rule all invariance proofs of the development go through.\<close>

locale invariant_system =
  fixes init :: "'s \<Rightarrow> bool"
    and step :: "'s \<Rightarrow> 's \<Rightarrow> bool"
    and inv :: "'s \<Rightarrow> bool"
  assumes inv_init: "init s \<Longrightarrow> inv s"
    and inv_step: "inv s \<Longrightarrow> step s t \<Longrightarrow> inv t"
begin

lemma inv_steps: "step\<^sup>*\<^sup>* s t \<Longrightarrow> inv s \<Longrightarrow> inv t"
  by (induction rule: rtranclp_induct) (auto intro: inv_step)

lemma inv_reachable: "init s \<Longrightarrow> step\<^sup>*\<^sup>* s t \<Longrightarrow> inv t"
  using inv_steps inv_init by blast

end

end
