(* ===== verification/Rust_Text.thy ===== *)
theory Rust_Text
  imports Prelude
begin

text \<open>
  Rust strings. A \<open>String\<close> or \<open>&str\<close> is modelled by HOL's \<open>string\<close>, read as
  the list of its UTF-8 bytes, so \<open>length\<close> is Rust's \<open>len\<close> (bytes, not code points).
  The theory holds the conversions to and from byte slices (\<open>as_bytes\<close>,
  \<open>str::from_utf8\<close>, with the well-formedness table of the standard library) and the
  decimal output of unsigned integers by \<open>format!\<close>.
\<close>

section \<open>Strings and bytes\<close>

definition as_bytes :: "string \<Rightarrow> bytes" where
  "as_bytes s = map of_char s"

definition bytes_str :: "bytes \<Rightarrow> string" where
  "bytes_str bs = map (\<lambda>b. char_of (unat b)) bs"

lemma as_bytes_simps [simp]:
  "as_bytes [] = []"
  "as_bytes (c # s) = of_char c # as_bytes s"
  "as_bytes (s @ t) = as_bytes s @ as_bytes t"
  "length (as_bytes s) = length s"
  "as_bytes s = [] \<longleftrightarrow> s = []"
  by (simp_all add: as_bytes_def)

lemma unat_of_char [simp]: "unat (of_char c :: u8) = of_char c"
proof -
  have "(of_char c :: nat) < 256" by simp
  then have "unat (word_of_nat (of_char c) :: u8) = of_char c"
    by (simp add: unat_of_nat)
  then show ?thesis by (simp only: of_nat_of_char)
qed

lemma of_char_word_inj [simp]: "(of_char c :: u8) = of_char d \<longleftrightarrow> c = d"
  by (metis unat_of_char of_char_eq_iff)

lemma bytes_str_as_bytes [simp]: "bytes_str (as_bytes s) = s"
  by (induction s) (simp_all add: bytes_str_def)

lemma as_bytes_bytes_str [simp]: "as_bytes (bytes_str bs) = bs"
proof (induction bs)
  case Nil
  then show ?case by (simp add: bytes_str_def)
next
  case (Cons b bs)
  have "(of_char (char_of (unat b)) :: u8) = word_of_nat (of_char (char_of (unat b)))"
    by (simp only: of_nat_of_char)
  also have "\<dots> = word_of_nat (unat b mod 256)" by (simp only: of_char_of)
  also have "\<dots> = b"
  proof -
    have "unat b < 256" using unsigned_less [of b] by simp
    then show ?thesis by simp
  qed
  finally show ?case using Cons.IH by (simp add: bytes_str_def as_bytes_def)
qed

lemma as_bytes_inj [simp]: "as_bytes s = as_bytes t \<longleftrightarrow> s = t"
  by (metis bytes_str_as_bytes)

section \<open>UTF-8 validation\<close>

text \<open>
  The ranges the continuation bytes after a leading byte must lie in, as in the table of the
  Unicode standard that \<open>core::str::from_utf8\<close> implements; \<open>None\<close> for a byte that
  cannot lead a sequence.
\<close>

definition utf8_ranges :: "u8 \<Rightarrow> (u8 \<times> u8) list option" where
  "utf8_ranges b =
     (if b < 0x80 then Some []
      else if b < 0xC2 then None
      else if b < 0xE0 then Some [(0x80, 0xBF)]
      else if b = 0xE0 then Some [(0xA0, 0xBF), (0x80, 0xBF)]
      else if b = 0xED then Some [(0x80, 0x9F), (0x80, 0xBF)]
      else if b < 0xF0 then Some [(0x80, 0xBF), (0x80, 0xBF)]
      else if b = 0xF0 then Some [(0x90, 0xBF), (0x80, 0xBF), (0x80, 0xBF)]
      else if b < 0xF4 then Some [(0x80, 0xBF), (0x80, 0xBF), (0x80, 0xBF)]
      else if b = 0xF4 then Some [(0x80, 0x8F), (0x80, 0xBF), (0x80, 0xBF)]
      else None)"

fun in_ranges :: "(u8 \<times> u8) list \<Rightarrow> bytes \<Rightarrow> bool" where
  "in_ranges [] bs = True"
| "in_ranges (r # rs) [] = False"
| "in_ranges ((lo, hi) # rs) (b # bs) = (lo \<le> b \<and> b \<le> hi \<and> in_ranges rs bs)"

fun utf8_valid :: "bytes \<Rightarrow> bool" where
  "utf8_valid [] = True"
| "utf8_valid (b # bs) =
     (case utf8_ranges b of
        None \<Rightarrow> False
      | Some rs \<Rightarrow> in_ranges rs bs \<and> utf8_valid (drop (length rs) bs))"

definition from_utf8 :: "bytes \<Rightarrow> string option" where
  "from_utf8 bs = (if utf8_valid bs then Some (bytes_str bs) else None)"

text \<open>Every Rust string is well-formed UTF-8; this is the type's own invariant.\<close>

definition valid_str :: "string \<Rightarrow> bool" where
  "valid_str s \<longleftrightarrow> utf8_valid (as_bytes s)"

lemma from_utf8_as_bytes [wire_simps]: "valid_str s \<Longrightarrow> from_utf8 (as_bytes s) = Some s"
  by (simp add: from_utf8_def valid_str_def)

lemma from_utf8_SomeD: "from_utf8 bs = Some s \<Longrightarrow> bs = as_bytes s \<and> valid_str s"
  by (auto simp: from_utf8_def valid_str_def split: if_splits)

lemma utf8_valid_ascii: "(\<And>b. b \<in> set bs \<Longrightarrow> b < 0x80) \<Longrightarrow> utf8_valid bs"
  by (induction bs) (simp_all add: utf8_ranges_def)

lemma in_ranges_append:
  "in_ranges rs bs \<Longrightarrow> in_ranges rs (bs @ cs) \<and> length rs \<le> length bs"
  by (induction rs bs rule: in_ranges.induct) auto

lemma utf8_valid_append: "utf8_valid bs \<Longrightarrow> utf8_valid cs \<Longrightarrow> utf8_valid (bs @ cs)"
proof (induction bs rule: utf8_valid.induct)
  case (2 b bs)
  then obtain rs where rs: "utf8_ranges b = Some rs" "in_ranges rs bs"
      "utf8_valid (drop (length rs) bs)"
    by (auto split: option.splits)
  with "2.IH" [OF rs(1)] "2.prems"(2) show ?case
    by (simp add: in_ranges_append)
qed simp

lemma valid_str_append [simp]: "valid_str s \<Longrightarrow> valid_str t \<Longrightarrow> valid_str (s @ t)"
  by (simp add: valid_str_def utf8_valid_append)

section \<open>Decimal output\<close>

text \<open>\<open>format!("{}", n)\<close> for an unsigned integer.\<close>

definition digit_char :: "nat \<Rightarrow> char" where
  "digit_char d = char_of (48 + d)"

fun fmt_nat :: "nat \<Rightarrow> string" where
  "fmt_nat n =
     (if n < 10 then [digit_char n] else fmt_nat (n div 10) @ [digit_char (n mod 10)])"

declare fmt_nat.simps [simp del]

definition fmt_u32 :: "u32 \<Rightarrow> string" where
  "fmt_u32 w = fmt_nat (unat w)"

text \<open>Reading decimals back, the reference for \<open>fmt_nat\<close>.\<close>

definition digit_val :: "char \<Rightarrow> nat" where
  "digit_val c = of_char c - 48"

definition dec_val :: "string \<Rightarrow> nat" where
  "dec_val s = foldl (\<lambda>acc c. acc * 10 + digit_val c) 0 s"

definition is_digit :: "char \<Rightarrow> bool" where
  "is_digit c \<longleftrightarrow> 48 \<le> (of_char c :: nat) \<and> (of_char c :: nat) < 58"

lemma digit_char_props:
  assumes "d < 10"
  shows "digit_val (digit_char d) = d" "is_digit (digit_char d)"
  using assms by (simp_all add: digit_char_def digit_val_def is_digit_def)

lemma fmt_nat_digits: "c \<in> set (fmt_nat n) \<Longrightarrow> is_digit c"
proof (induction n rule: fmt_nat.induct)
  case (1 n)
  then show ?case
    by (subst (asm) fmt_nat.simps) (auto split: if_splits simp: digit_char_props)
qed

lemma dec_val_fmt_nat: "dec_val (fmt_nat n) = n"
proof (induction n rule: fmt_nat.induct)
  case (1 n)
  show ?case
  proof (cases "n < 10")
    case True
    then show ?thesis by (subst fmt_nat.simps) (simp add: dec_val_def digit_char_props)
  next
    case False
    have snoc: "dec_val (s @ [c]) = dec_val s * 10 + digit_val c" for s c
      by (simp add: dec_val_def)
    from False show ?thesis
      by (subst fmt_nat.simps) (simp add: snoc "1.IH" digit_char_props)
  qed
qed

lemma fmt_u32_inj [simp]: "fmt_u32 a = fmt_u32 b \<longleftrightarrow> a = b"
  by (metis dec_val_fmt_nat fmt_u32_def unsigned_word_eqI word_unat_eq_iff)

lemma fmt_u32_no_sep:
  "CHR 0x0A \<notin> set (fmt_u32 w)" "CHR 0x20 \<notin> set (fmt_u32 w)"
  using fmt_nat_digits [of "CHR 0x0A" "unat w"] fmt_nat_digits [of "CHR 0x20" "unat w"]
  by (auto simp: fmt_u32_def is_digit_def)

lemma digit_ascii: "is_digit c \<Longrightarrow> (of_char c :: u8) < 0x80"
  by (simp add: is_digit_def word_less_nat_alt)

lemma valid_fmt_u32 [simp]: "valid_str (fmt_u32 w)"
  unfolding valid_str_def fmt_u32_def as_bytes_def
  by (rule utf8_valid_ascii) (auto dest: fmt_nat_digits digit_ascii)

end
