(* ===== verification/Config.thy ===== *)
theory Config
  imports Rust_Text
begin

text \<open>
  \<open>src/config.rs\<close>: the configuration the client sends with IDENTIFY (\<open>Config\<close>), the
  configuration nsqd answers with (\<open>NsqdConfig\<close>), the default values and the builder
  methods. Builder methods that share their name with a field carry the prefix \<open>with_\<close>;
  the fields of \<open>NsqdConfig\<close> carry the prefix \<open>nsqd_\<close>. The host name is read by the
  package \<open>hostname\<close> and is an argument here.
\<close>

record config =
  client_id :: "string option"
  hostname :: "string option"
  feature_negotiation :: bool
  heartbeat_interval :: i64
  output_buffer_size :: u64
  output_buffer_timeout :: u32
  tls_v1 :: bool
  snappy :: bool
  deflate :: bool
  deflate_level :: u16
  sample_rate :: u16
  user_agent :: string
  message_timeout :: u32

definition config_default :: "string option \<Rightarrow> config" where
  "config_default host =
     \<lparr>client_id = host,
      hostname = host,
      feature_negotiation = True,
      heartbeat_interval = 30000,
      output_buffer_size = 16384,
      output_buffer_timeout = 250,
      tls_v1 = False,
      snappy = False,
      deflate = False,
      deflate_level = 6,
      sample_rate = 0,
      user_agent = ''nsq_client'',
      message_timeout = 0\<rparr>"

record nsqd_config =
  nsqd_max_rdy_count :: u32
  nsqd_version :: string
  nsqd_max_msg_timeout :: u64
  nsqd_msg_timeout :: u64
  nsqd_tls_v1 :: bool
  nsqd_deflate :: bool
  nsqd_deflate_level :: u16
  nsqd_max_deflate_level :: u16
  nsqd_snappy :: bool
  nsqd_sample_rate :: u16
  nsqd_auth_required :: bool
  nsqd_output_buffer_size :: u64
  nsqd_output_buffer_timeout :: u32

text \<open>The derived \<open>Default\<close>: zero, false and the empty string everywhere.\<close>

definition nsqd_config_default :: nsqd_config where
  "nsqd_config_default =
     \<lparr>nsqd_max_rdy_count = 0,
      nsqd_version = '''',
      nsqd_max_msg_timeout = 0,
      nsqd_msg_timeout = 0,
      nsqd_tls_v1 = False,
      nsqd_deflate = False,
      nsqd_deflate_level = 0,
      nsqd_max_deflate_level = 0,
      nsqd_snappy = False,
      nsqd_sample_rate = 0,
      nsqd_auth_required = False,
      nsqd_output_buffer_size = 0,
      nsqd_output_buffer_timeout = 0\<rparr>"

definition config_new :: "string option \<Rightarrow> config" where
  "config_new host = config_default host"

definition with_client_id :: "string \<Rightarrow> config \<Rightarrow> config" where
  "with_client_id v c = c\<lparr>client_id := Some v\<rparr>"

definition with_hostname :: "string \<Rightarrow> config \<Rightarrow> config" where
  "with_hostname v c = c\<lparr>hostname := Some v\<rparr>"

definition with_user_agent :: "string \<Rightarrow> config \<Rightarrow> config" where
  "with_user_agent v c = c\<lparr>user_agent := v\<rparr>"

definition config_tls :: "config \<Rightarrow> config" where
  "config_tls c = c\<lparr>tls_v1 := True\<rparr>"

lemmas config_builder_defs =
  config_new_def config_default_def with_client_id_def with_hostname_def with_user_agent_def
  config_tls_def

text \<open>No builder method touches the size the client reads with.\<close>

lemma builder_output_buffer_size [simp]:
  "output_buffer_size (with_client_id v c) = output_buffer_size c"
  "output_buffer_size (with_hostname v c) = output_buffer_size c"
  "output_buffer_size (with_user_agent v c) = output_buffer_size c"
  "output_buffer_size (config_tls c) = output_buffer_size c"
  "output_buffer_size (config_new host) = 16384"
  by (simp_all add: config_builder_defs)

text \<open>
  The value ranges the documentation comments of \<open>Config\<close> give, as far as the field types
  can express them.
\<close>

definition documented_ranges :: "config \<Rightarrow> bool" where
  "documented_ranges c \<longleftrightarrow>
     (sint (heartbeat_interval c) = - 1 \<or> 1000 \<le> sint (heartbeat_interval c)) \<and>
     64 \<le> unat (output_buffer_size c) \<and> 1 \<le> unat (output_buffer_timeout c) \<and>
     1 \<le> unat (deflate_level c) \<and> unat (sample_rate c) \<le> 100"

lemma documented_ranges_new: "documented_ranges (config_new host)"
  by (simp add: documented_ranges_def config_builder_defs)

lemma documented_ranges_builder [inv_intros]:
  "documented_ranges c \<Longrightarrow> documented_ranges (with_client_id v c)"
  "documented_ranges c \<Longrightarrow> documented_ranges (with_hostname v c)"
  "documented_ranges c \<Longrightarrow> documented_ranges (with_user_agent v c)"
  "documented_ranges c \<Longrightarrow> documented_ranges (config_tls c)"
  by (simp_all add: documented_ranges_def config_builder_defs)

end
