(* ===== verification/Runtime.thy ===== *)
theory Runtime
  imports Config
begin

text \<open>
  What the client takes from outside the repository, gathered in one record of parameters
  \<open>ext\<close>: the build profile, the growth policy of \<open>bytes::BytesMut\<close>, its behaviour when a
  split point lies beyond the length, the JSON conversions of \<open>serde_json\<close>, and whether the
  \<open>n\<close>th call of \<open>set_readiness\<close> of \<open>mio\<close> on the waker's registration succeeds. The
  documented behaviour of these packages is stated as named predicates (\<open>reserve_law\<close>,
  \<open>split_law\<close>) that theorems take as hypotheses.

  A writing buffer is a \<open>bytes_mut\<close> with its capacity, because the \<open>put_*\<close> methods panic
  when the capacity is used up. A reading buffer is only appended to (which reserves by
  itself) and split, so a plain byte list stands for it.
\<close>

record ext =
  overflow_checks :: bool
  x_new_cap :: nat
  x_reserve :: "nat \<Rightarrow> nat \<Rightarrow> nat \<Rightarrow> nat option"
  x_split_panics :: "nat \<Rightarrow> bytes \<Rightarrow> bool"
  x_config_json :: "config \<Rightarrow> string option"
  x_nsqd_json :: "string \<Rightarrow> nsqd_config option"
  x_set_readiness :: "nat \<Rightarrow> bool"

record bytes_mut =
  bm_data :: bytes
  bm_cap :: nat

section \<open>Writing buffers\<close>

definition bm_new :: "ext \<Rightarrow> bytes_mut" where
  "bm_new X = \<lparr>bm_data = [], bm_cap = x_new_cap X\<rparr>"

definition bm_remaining :: "bytes_mut \<Rightarrow> nat" where
  "bm_remaining b = bm_cap b - length (bm_data b)"

definition bm_reserve :: "ext \<Rightarrow> nat \<Rightarrow> bytes_mut \<Rightarrow> panic + bytes_mut" where
  "bm_reserve X n b =
     (case x_reserve X (length (bm_data b)) (bm_cap b) n of
        None \<Rightarrow> Inl CapacityOverflow
      | Some c \<Rightarrow> Inr (b\<lparr>bm_cap := c\<rparr>))"

definition bm_put :: "bytes \<Rightarrow> bytes_mut \<Rightarrow> panic + bytes_mut" where
  "bm_put xs b =
     (if bm_remaining b < length xs then Inl BufferFull
      else Inr (b\<lparr>bm_data := bm_data b @ xs\<rparr>))"

definition bm_extend :: "ext \<Rightarrow> bytes \<Rightarrow> bytes_mut \<Rightarrow> panic + bytes_mut" where
  "bm_extend X xs b = rbind (bm_reserve X (length xs) b) (bm_put xs)"

definition bm_clear :: "bytes_mut \<Rightarrow> bytes_mut" where
  "bm_clear b = b\<lparr>bm_data := []\<rparr>"

definition bm_wf :: "bytes_mut \<Rightarrow> bool" where
  "bm_wf b \<longleftrightarrow> length (bm_data b) \<le> bm_cap b"

text \<open>
  The documentation of \<open>reserve\<close>: afterwards at least \<open>n\<close> more bytes can be written, no
  capacity is given back, and it panics only when the capacity leaves the address space.
\<close>

definition reserve_law :: "ext \<Rightarrow> bool" where
  "reserve_law X \<longleftrightarrow>
     (\<forall>len cap n. len \<le> cap \<and> len + n < 2 ^ 63 \<longrightarrow>
        (\<exists>c. x_reserve X len cap n = Some c \<and> len + n \<le> c \<and> cap \<le> c))"

lemma reserve_lawD:
  assumes "reserve_law X" "bm_wf b" "length (bm_data b) + n < 2 ^ 63"
  obtains c where "bm_reserve X n b = Inr (b\<lparr>bm_cap := c\<rparr>)" "length (bm_data b) + n \<le> c"
    "bm_cap b \<le> c"
proof -
  from assms obtain c where
    "x_reserve X (length (bm_data b)) (bm_cap b) n = Some c" "length (bm_data b) + n \<le> c"
    "bm_cap b \<le> c"
    unfolding reserve_law_def bm_wf_def by blast
  then show ?thesis by (intro that) (simp_all add: bm_reserve_def)
qed

lemma bm_new_wf [inv_intros, simp]: "bm_wf (bm_new X)"
  by (simp add: bm_wf_def bm_new_def)

lemma bm_clear_wf [inv_intros, simp]: "bm_wf b \<Longrightarrow> bm_wf (bm_clear b)"
  by (simp add: bm_wf_def bm_clear_def)

lemma bm_clear_data [simp]: "bm_data (bm_clear b) = []"
  by (simp add: bm_clear_def)

lemma bm_new_data [simp]: "bm_data (bm_new X) = []"
  by (simp add: bm_new_def)

section \<open>Reading buffers\<close>

text \<open>
  \<open>split_to\<close> takes the first \<open>n\<close> bytes off a buffer. Beyond the length it either panics
  or (where \<open>x_split_panics\<close> says no) hands over what there is.
\<close>

definition split_to :: "ext \<Rightarrow> nat \<Rightarrow> bytes \<Rightarrow> panic + bytes \<times> bytes" where
  "split_to X n b =
     (if n \<le> length b then Inr (take n b, drop n b)
      else if x_split_panics X n b then Inl SplitOutOfBounds
      else Inr (b, []))"

text \<open>The documentation of \<open>split_to\<close>: it panics if the split point exceeds the length.\<close>

definition split_law :: "ext \<Rightarrow> bool" where
  "split_law X \<longleftrightarrow> (\<forall>n b. length b < n \<longrightarrow> x_split_panics X n b)"

lemma split_to_in_range [wire_simps]:
  "n \<le> length b \<Longrightarrow> split_to X n b = Inr (take n b, drop n b)"
  by (simp add: split_to_def)

lemma split_to_beyond:
  "split_law X \<Longrightarrow> length b < n \<Longrightarrow> split_to X n b = Inl SplitOutOfBounds"
  by (simp add: split_to_def split_law_def)

lemma split_to_shrinks: "split_to X n b = Inr (front, rest) \<Longrightarrow> length rest = length b - n"
  by (auto simp: split_to_def split: if_splits)

text \<open>Reading \<open>k\<close> bytes off a slice that is too short panics.\<close>

definition read_n :: "nat \<Rightarrow> bytes \<Rightarrow> panic + bytes" where
  "read_n k bs = (if length bs < k then Inl SliceOutOfBounds else Inr (take k bs))"

section \<open>A concrete instance\<close>

text \<open>
  An instance that satisfies the documented behaviour: exact growth, a panic on every split
  beyond the length. \<open>j\<close> is the JSON text of the configuration and \<open>nc\<close> the answer nsqd's
  JSON decodes to.
\<close>

definition std_ext :: "bool \<Rightarrow> string \<Rightarrow> nsqd_config \<Rightarrow> ext" where
  "std_ext ovf j nc =
     \<lparr>overflow_checks = ovf,
      x_new_cap = 31,
      x_reserve = (\<lambda>len cap n. if len + n < 2 ^ 63 then Some (max cap (len + n)) else None),
      x_split_panics = (\<lambda>n b. True),
      x_config_json = (\<lambda>c. Some j),
      x_nsqd_json = (\<lambda>s. Some nc),
      x_set_readiness = (\<lambda>n. True)\<rparr>"

lemma std_ext_laws [simp]: "reserve_law (std_ext ovf j nc)" "split_law (std_ext ovf j nc)"
  by (auto simp: std_ext_def reserve_law_def split_law_def)

lemma std_ext_fields [simp]:
  "overflow_checks (std_ext ovf j nc) = ovf"
  "x_config_json (std_ext ovf j nc) c = Some j"
  "x_nsqd_json (std_ext ovf j nc) s = Some nc"
  "x_set_readiness (std_ext ovf j nc) n"
  by (simp_all add: std_ext_def)

end
