(* ===== verification/Msgs.thy ===== *)
theory Msgs
  imports Runtime
begin

text \<open>
  \<open>src/msgs.rs\<close>: the NSQ commands and the message types the parts of the client exchange.
  The structs that implement the trait \<open>NsqCmd\<close> are the constructors of the datatype
  \<open>nsq_cmd\<close> (\<open>RawCmd\<close> is the implementation for \<open>Cmd\<close> itself); the trait's methods
  \<open>cmd\<close>, \<open>msg\<close> and \<open>as_cmd\<close> are functions over it.
\<close>

section \<open>Commands\<close>

definition VERSION :: string where "VERSION = ''  V2''"
definition PUB :: string where [simp]: "PUB = ''PUB''"
definition MPUB :: string where [simp]: "MPUB = ''MPUB''"
definition DPUB :: string where [simp]: "DPUB = ''DPUB''"
definition SUB :: string where [simp]: "SUB = ''SUB''"
definition TOUCH :: string where [simp]: "TOUCH = ''TOUCH''"
definition RDY :: string where [simp]: "RDY = ''RDY''"
definition FIN :: string where [simp]: "FIN = ''FIN''"
definition CLS :: string where [simp]: "CLS = ''CLS''"
definition AUTH :: string where [simp]: "AUTH = ''AUTH''"
definition NOP :: string where [simp]: "NOP = ''NOP''"
definition IDENTIFY :: string where [simp]: "IDENTIFY = ''IDENTIFY''"
definition REQ :: string where [simp]: "REQ = ''REQ''"

record cmd =
  cmd_cmd :: string
  cmd_msg :: "bytes list"

datatype nsq_cmd =
    Fin string
  | Touch string
  | Requeue string u32
  | Pub string bytes
  | Mpub string "bytes list"
  | Dpub string u32 bytes
  | Identify string
  | Subscribe string string
  | Auth string
  | Nop
  | Cls
  | Rdy u32
  | RawCmd cmd

fun nsq_cmd_cmd :: "nsq_cmd \<Rightarrow> string" where
  "nsq_cmd_cmd (Auth s) = AUTH"
| "nsq_cmd_cmd Nop = NOP"
| "nsq_cmd_cmd (Subscribe topic chan) = SUB @ '' '' @ topic @ '' '' @ chan"
| "nsq_cmd_cmd (Rdy n) = RDY @ '' '' @ fmt_u32 n"
| "nsq_cmd_cmd Cls = CLS"
| "nsq_cmd_cmd (Identify j) = IDENTIFY"
| "nsq_cmd_cmd (Fin i) = FIN @ '' '' @ i"
| "nsq_cmd_cmd (Touch i) = TOUCH @ '' '' @ i"
| "nsq_cmd_cmd (Requeue i t) = REQ @ '' '' @ i @ '' '' @ fmt_u32 t"
| "nsq_cmd_cmd (Pub topic m) = PUB @ '' '' @ topic"
| "nsq_cmd_cmd (Mpub topic ms) = MPUB @ '' '' @ topic"
| "nsq_cmd_cmd (Dpub topic d m) = DPUB @ '' '' @ topic @ '' '' @ fmt_u32 d"
| "nsq_cmd_cmd (RawCmd c) = cmd_cmd c"

fun nsq_cmd_msg :: "nsq_cmd \<Rightarrow> bytes list" where
  "nsq_cmd_msg (Auth s) = [as_bytes s]"
| "nsq_cmd_msg (Identify j) = [as_bytes j]"
| "nsq_cmd_msg (Pub topic m) = [m]"
| "nsq_cmd_msg (Mpub topic ms) = ms"
| "nsq_cmd_msg (Dpub topic d m) = [m]"
| "nsq_cmd_msg (RawCmd c) = cmd_msg c"
| "nsq_cmd_msg _ = []"

definition as_cmd :: "nsq_cmd \<Rightarrow> cmd" where
  "as_cmd c = \<lparr>cmd_cmd = nsq_cmd_cmd c, cmd_msg = nsq_cmd_msg c\<rparr>"

lemma as_cmd_simps [simp]:
  "cmd_cmd (as_cmd c) = nsq_cmd_cmd c"
  "cmd_msg (as_cmd c) = nsq_cmd_msg c"
  by (simp_all add: as_cmd_def)

lemma as_cmd_RawCmd [simp]: "as_cmd (RawCmd c) = c"
  by (simp add: as_cmd_def)

section \<open>Messages between the parts of the client\<close>

record msg =
  msg_timeout_ms :: u64
  msg_timestamp :: i64
  msg_attemps :: u16
  msg_id :: string
  msg_body :: bytes

datatype bytes_msg = BytesMsg u64 bytes

datatype conn_msg = Close | Connect string | GetIsConnected

record conn_info =
  info_connected :: bool
  info_last_time :: i64

record msg_time_info =
  last_time_recv :: i64
  last_time_sent_info :: u32

datatype conn_msg_info = IsConnected conn_info | MsgInfo msg_time_info

section \<open>Messages with content\<close>

text \<open>A message without content is the stop message of the readers.\<close>

fun msg_bytes :: "bytes_msg \<Rightarrow> bytes" where
  "msg_bytes (BytesMsg t b) = b"

abbreviation content :: "bytes_msg \<Rightarrow> bool" where
  "content m \<equiv> msg_bytes m \<noteq> []"

definition contents :: "bytes_msg list \<Rightarrow> bytes_msg list" where
  "contents ms = filter content ms"

lemma contents_append [simp]: "contents (ms @ ms') = contents ms @ contents ms'"
  by (simp add: contents_def)

end
