(* ===== verification/Codec.thy ===== *)
theory Codec
  imports Msgs
begin

text \<open>
  \<open>src/codec.rs\<close>: writing commands and message bodies into the write buffer, decoding the
  body of a message frame. \<open>wire_writer\<close> is the contract every writer keeps: it appends the
  encoding of its argument, stays within the capacity it has reserved and so never panics.
  \<open>for_each\<close> is the \<open>for\<close> loop over a list of things to write.
\<close>

definition HEADER_LENGTH :: nat where "HEADER_LENGTH = 8"

definition FRAME_TYPE_RESPONSE :: i32 where "FRAME_TYPE_RESPONSE = 0"
definition FRAME_TYPE_ERROR :: i32 where "FRAME_TYPE_ERROR = 1"
definition FRAME_TYPE_MESSAGE :: i32 where "FRAME_TYPE_MESSAGE = 2"

definition HEARTBEAT :: string where "HEARTBEAT = ''_heartbeat_''"

lemmas codec_consts =
  HEADER_LENGTH_def FRAME_TYPE_RESPONSE_def FRAME_TYPE_ERROR_def FRAME_TYPE_MESSAGE_def

datatype response = Response string | RError string

section \<open>Decoding a message\<close>

definition decode_msg :: "ext \<Rightarrow> bytes \<Rightarrow> panic + i64 \<times> u16 \<times> string \<times> bytes" where
  "decode_msg X buf =
     rbind (split_to X 8 buf) (\<lambda>(ts_bytes, buf1).
     rbind (read_n 8 ts_bytes) (\<lambda>ts.
     rbind (split_to X 2 buf1) (\<lambda>(att_bytes, buf2).
     rbind (read_n 2 att_bytes) (\<lambda>att.
     rbind (split_to X 16 buf2) (\<lambda>(id_bytes, buf3).
       let ident = (case from_utf8 id_bytes of Some s \<Rightarrow> s | None \<Rightarrow> '''')
       in Inr (read_i64 ts, read_u16 att, ident, buf3))))))"

section \<open>Writing\<close>

definition check_and_reserve :: "ext \<Rightarrow> nat \<Rightarrow> bytes_mut \<Rightarrow> panic + bytes_mut" where
  "check_and_reserve X sz buf =
     (if bm_remaining buf < sz then bm_reserve X sz buf else Inr buf)"

definition write_n :: "bytes_mut \<Rightarrow> panic + bytes_mut" where
  "write_n buf = bm_put [0x0A] buf"

definition write_magic :: "ext \<Rightarrow> string \<Rightarrow> bytes_mut \<Rightarrow> panic + bytes_mut" where
  "write_magic X s buf =
     rbind (check_and_reserve X (length (as_bytes s)) buf) (bm_extend X (as_bytes s))"

definition write_cmd :: "ext \<Rightarrow> string \<Rightarrow> bytes_mut \<Rightarrow> panic + bytes_mut" where
  "write_cmd X s buf =
     (let sz = length (as_bytes s) + 1 in
      rbind (check_and_reserve X sz buf) (\<lambda>buf.
      rbind (bm_extend X (as_bytes s) buf) write_n))"

text \<open>\<open>put_u32_be\<close> of a length cast to \<open>u32\<close>: the length modulo \<open>2 ^ 32\<close>.\<close>

definition put_len :: "nat \<Rightarrow> bytes_mut \<Rightarrow> panic + bytes_mut" where
  "put_len n buf = bm_put (be_bytes 4 (unat (word_of_nat n :: u32))) buf"

definition write_msg :: "ext \<Rightarrow> bytes \<Rightarrow> bytes_mut \<Rightarrow> panic + bytes_mut" where
  "write_msg X m buf =
     (let msg_len = length m; sz = 4 + msg_len in
      rbind (check_and_reserve X sz buf) (\<lambda>buf.
      rbind (put_len msg_len buf) (bm_extend X m)))"

text \<open>The \<open>i32\<close> sum of the message sizes, as the closure of the \<open>fold\<close> computes it.\<close>

fun fold_sizes :: "bool \<Rightarrow> i32 \<Rightarrow> bytes list \<Rightarrow> panic + i32" where
  "fold_sizes ovf acc [] = Inr acc"
| "fold_sizes ovf acc (m # ms) =
     rbind (add_i32 ovf acc (word_of_nat (length m + 4))) (\<lambda>acc'. fold_sizes ovf acc' ms)"

fun for_each :: "('a \<Rightarrow> 'b \<Rightarrow> panic + 'b) \<Rightarrow> 'a list \<Rightarrow> 'b \<Rightarrow> panic + 'b" where
  "for_each f [] b = Inr b"
| "for_each f (x # xs) b = rbind (f x b) (for_each f xs)"

definition write_mmsg :: "ext \<Rightarrow> bytes list \<Rightarrow> bytes_mut \<Rightarrow> panic + bytes_mut" where
  "write_mmsg X ms buf =
     (let len = length ms; ovf = overflow_checks X in
      rbind (fold_sizes ovf 0 ms) (\<lambda>sum.
      rbind (add_i32 ovf sum 4) (\<lambda>body.
      let body_size = i32_as_usize body in
      rbind (add_usize ovf body_size 4) (\<lambda>total.
      rbind (check_and_reserve X total buf) (\<lambda>buf.
      rbind (put_len body_size buf) (\<lambda>buf.
      rbind (put_len len buf) (\<lambda>buf.
      for_each (write_msg X) ms buf)))))))"

section \<open>The contract of a writer\<close>

locale wire_writer =
  fixes wr :: "ext \<Rightarrow> 'a \<Rightarrow> bytes_mut \<Rightarrow> panic + bytes_mut"
    and enc :: "'a \<Rightarrow> bytes"
    and ok :: "'a \<Rightarrow> bool"
  assumes wr_appends:
    "\<lbrakk>reserve_law X; bm_wf b; ok a; length (bm_data b) + length (enc a) < 2 ^ 63\<rbrakk>
       \<Longrightarrow> \<exists>b'. wr X a b = Inr b' \<and> bm_wf b' \<and> bm_data b' = bm_data b @ enc a"
begin

lemma wrE:
  assumes "reserve_law X" "bm_wf b" "ok a" "length (bm_data b) + length (enc a) < 2 ^ 63"
  obtains b' where "wr X a b = Inr b'" "bm_wf b'" "bm_data b' = bm_data b @ enc a"
  using wr_appends [OF assms] by blast

lemma for_each_appends:
  assumes "reserve_law X"
  shows "\<lbrakk>bm_wf b; \<forall>a \<in> set as. ok a; length (bm_data b) + length (concat (map enc as)) < 2 ^ 63\<rbrakk>
    \<Longrightarrow> \<exists>b'. for_each (wr X) as b = Inr b' \<and> bm_wf b' \<and>
             bm_data b' = bm_data b @ concat (map enc as)"
proof (induction as arbitrary: b)
  case Nil
  then show ?case by simp
next
  case (Cons a as)
  from Cons.prems obtain b' where b': "wr X a b = Inr b'" "bm_wf b'"
      "bm_data b' = bm_data b @ enc a"
    using wrE [OF assms, of b a] by auto
  with Cons.prems have "\<exists>b''. for_each (wr X) as b' = Inr b'' \<and> bm_wf b'' \<and>
      bm_data b'' = bm_data b' @ concat (map enc as)"
    by (intro Cons.IH) (simp_all add: algebra_simps)
  with b' show ?case by auto
qed

end

section \<open>Every writer keeps the contract\<close>

definition wire_line :: "string \<Rightarrow> bytes" where
  "wire_line s = as_bytes s @ [0x0A]"

definition wire_msg :: "bytes \<Rightarrow> bytes" where
  "wire_msg m = be_bytes 4 (length m) @ m"

definition wire_mmsg :: "bytes list \<Rightarrow> bytes" where
  "wire_mmsg ms =
     be_bytes 4 (4 + length (concat (map wire_msg ms))) @ be_bytes 4 (length ms) @
     concat (map wire_msg ms)"

definition msg_ok :: "bytes \<Rightarrow> bool" where
  "msg_ok m \<longleftrightarrow> length m < 2 ^ 32"

definition mmsg_ok :: "bytes list \<Rightarrow> bool" where
  "mmsg_ok ms \<longleftrightarrow> 4 + length (concat (map wire_msg ms)) < 2 ^ 31"

lemma length_wire_msg [simp]: "length (wire_msg m) = 4 + length m"
  by (simp add: wire_msg_def)

lemma put_len_eq [wire_simps]:
  "n < 2 ^ 32 \<Longrightarrow> put_len n b = bm_put (be_bytes 4 n) b"
  by (simp add: put_len_def unat_of_nat)

lemma bm_put_ok:
  assumes "bm_wf b" "length (bm_data b) + length xs \<le> bm_cap b"
  shows "bm_put xs b = Inr (b\<lparr>bm_data := bm_data b @ xs\<rparr>)"
  using assms by (simp add: bm_put_def bm_remaining_def)

text \<open>
  After \<open>check_and_reserve\<close> the bytes asked for fit; \<open>bm_extend\<close> reserves by itself and
  keeps room for \<open>k\<close> further bytes when there was room for all.
\<close>

lemma check_and_reserve_ok:
  assumes "reserve_law X" "bm_wf b" "length (bm_data b) + n < 2 ^ 63"
  obtains c where "check_and_reserve X n b = Inr (b\<lparr>bm_cap := c\<rparr>)"
    "length (bm_data b) + n \<le> c"
proof (cases "bm_remaining b < n")
  case True
  obtain c where c: "bm_reserve X n b = Inr (b\<lparr>bm_cap := c\<rparr>)" "length (bm_data b) + n \<le> c"
    by (rule reserve_lawD [OF assms])
  with True have "check_and_reserve X n b = Inr (b\<lparr>bm_cap := c\<rparr>)"
    by (simp add: check_and_reserve_def)
  then show ?thesis using c(2) by (rule that)
next
  case False
  with assms(2) have "length (bm_data b) + n \<le> bm_cap b"
    by (simp add: bm_remaining_def bm_wf_def)
  with False show ?thesis
    using that [of "bm_cap b"] by (simp add: check_and_reserve_def)
qed

lemma bm_extend_ok:
  assumes "reserve_law X" "bm_wf b" "length (bm_data b) + length xs < 2 ^ 63"
  obtains c where "bm_extend X xs b = Inr (b\<lparr>bm_cap := c, bm_data := bm_data b @ xs\<rparr>)"
    "length (bm_data b) + length xs \<le> c" "bm_cap b \<le> c"
proof -
  obtain c where c: "bm_reserve X (length xs) b = Inr (b\<lparr>bm_cap := c\<rparr>)"
      "length (bm_data b) + length xs \<le> c" "bm_cap b \<le> c"
    by (rule reserve_lawD [OF assms])
  then have "bm_extend X xs b = Inr (b\<lparr>bm_cap := c, bm_data := bm_data b @ xs\<rparr>)"
    by (simp add: bm_extend_def bm_put_def bm_remaining_def)
  then show ?thesis using c(2,3) by (rule that)
qed

lemma write_magic_appends:
  assumes "reserve_law X" "bm_wf b" "length (bm_data b) + length s < 2 ^ 63"
  shows "\<exists>b'. write_magic X s b = Inr b' \<and> bm_wf b' \<and> bm_data b' = bm_data b @ as_bytes s"
proof -
  obtain c where c: "check_and_reserve X (length s) b = Inr (b\<lparr>bm_cap := c\<rparr>)"
      "length (bm_data b) + length s \<le> c"
    by (rule check_and_reserve_ok [OF assms])
  let ?b1 = "b\<lparr>bm_cap := c\<rparr>"
  from c have wf1: "bm_wf ?b1" by (simp add: bm_wf_def)
  have len1: "length (bm_data ?b1) + length (as_bytes s) < 2 ^ 63" using assms(3) by simp
  obtain c2 where "bm_extend X (as_bytes s) ?b1 =
        Inr (?b1\<lparr>bm_cap := c2, bm_data := bm_data ?b1 @ as_bytes s\<rparr>)" "bm_cap ?b1 \<le> c2"
    by (rule bm_extend_ok [OF assms(1) wf1 len1])
  with c show ?thesis by (simp add: write_magic_def bm_wf_def)
qed

lemma write_cmd_appends:
  assumes "reserve_law X" "bm_wf b" "length (bm_data b) + length (wire_line s) < 2 ^ 63"
  shows "\<exists>b'. write_cmd X s b = Inr b' \<and> bm_wf b' \<and> bm_data b' = bm_data b @ wire_line s"
proof -
  have len: "length (bm_data b) + (length s + 1) < 2 ^ 63"
    using assms(3) by (simp add: wire_line_def)
  obtain c where c: "check_and_reserve X (length s + 1) b = Inr (b\<lparr>bm_cap := c\<rparr>)"
      "length (bm_data b) + (length s + 1) \<le> c"
    by (rule check_and_reserve_ok [OF assms(1,2) len])
  let ?b1 = "b\<lparr>bm_cap := c\<rparr>"
  from c have wf1: "bm_wf ?b1" by (simp add: bm_wf_def)
  have len1: "length (bm_data ?b1) + length (as_bytes s) < 2 ^ 63" using len by simp
  obtain c2 where c2: "bm_extend X (as_bytes s) ?b1 =
        Inr (?b1\<lparr>bm_cap := c2, bm_data := bm_data ?b1 @ as_bytes s\<rparr>)" "bm_cap ?b1 \<le> c2"
    by (rule bm_extend_ok [OF assms(1) wf1 len1])
  with c show ?thesis
    by (simp add: write_cmd_def write_n_def bm_put_def bm_remaining_def wire_line_def bm_wf_def)
qed

lemma write_msg_appends:
  assumes "reserve_law X" "bm_wf b" "msg_ok m"
    and "length (bm_data b) + length (wire_msg m) < 2 ^ 63"
  shows "\<exists>b'. write_msg X m b = Inr b' \<and> bm_wf b' \<and> bm_data b' = bm_data b @ wire_msg m"
proof -
  have len: "length (bm_data b) + (4 + length m) < 2 ^ 63" using assms(4) by simp
  obtain c where c: "check_and_reserve X (4 + length m) b = Inr (b\<lparr>bm_cap := c\<rparr>)"
      "length (bm_data b) + (4 + length m) \<le> c"
    by (rule check_and_reserve_ok [OF assms(1,2) len])
  let ?b2 = "b\<lparr>bm_cap := c, bm_data := bm_data b @ be_bytes 4 (length m)\<rparr>"
  have put: "put_len (length m) (b\<lparr>bm_cap := c\<rparr>) = Inr ?b2"
    using assms(3) c(2) by (simp add: msg_ok_def put_len_eq bm_put_def bm_remaining_def)
  have wf2: "bm_wf ?b2" using c(2) by (simp add: bm_wf_def)
  have len2: "length (bm_data ?b2) + length m < 2 ^ 63" using len by simp
  obtain c2 where "bm_extend X m ?b2 = Inr (?b2\<lparr>bm_cap := c2, bm_data := bm_data ?b2 @ m\<rparr>)"
      "length (bm_data ?b2) + length m \<le> c2" "bm_cap ?b2 \<le> c2"
    by (rule bm_extend_ok [OF assms(1) wf2 len2])
  with c put show ?thesis by (simp add: write_msg_def bm_wf_def wire_msg_def)
qed

interpretation cmd_writer: wire_writer write_cmd wire_line "\<lambda>s. True"
  by unfold_locales (rule write_cmd_appends)

interpretation msg_writer: wire_writer write_msg wire_msg msg_ok
  by unfold_locales (rule write_msg_appends)

lemma add_i32_of_nat:
  assumes "a + b < 2 ^ 31"
  shows "add_i32 ovf (word_of_nat a) (word_of_nat b) = Inr (word_of_nat (a + b))"
proof -
  have "sint (word_of_nat a :: i32) = int a" "sint (word_of_nat b :: i32) = int b"
    using assms by (simp_all add: signed_of_nat signed_take_bit_int_eq_self)
  then show ?thesis using assms by (simp add: add_i32_def)
qed

lemma fold_sizes_of_nat:
  "a + length (concat (map wire_msg ms)) < 2 ^ 31 \<Longrightarrow>
     fold_sizes ovf (word_of_nat a) ms = Inr (word_of_nat (a + length (concat (map wire_msg ms))))"
proof (induction ms arbitrary: a)
  case Nil
  then show ?case by simp
next
  case (Cons m ms)
  then have sum: "a + (length m + 4) < 2 ^ 31" by simp
  have "fold_sizes ovf (word_of_nat (a + (length m + 4))) ms =
      Inr (word_of_nat (a + (length m + 4) + length (concat (map wire_msg ms))))"
    using Cons.prems by (intro Cons.IH) simp
  with add_i32_of_nat [OF sum] show ?case by (simp add: algebra_simps)
qed

lemma length_wire_msgs: "length ms \<le> length (concat (map wire_msg ms))"
  by (induction ms) auto

lemma mmsg_ok_msg_ok: "mmsg_ok ms \<Longrightarrow> m \<in> set ms \<Longrightarrow> msg_ok m"
proof -
  assume "m \<in> set ms"
  then have "length m \<le> length (concat (map wire_msg ms))"
    by (induction ms) auto
  moreover assume "mmsg_ok ms"
  ultimately show ?thesis by (simp add: mmsg_ok_def msg_ok_def)
qed

lemma write_mmsg_appends:
  assumes X: "reserve_law X" and wf: "bm_wf b" and ok: "mmsg_ok ms"
    and len: "length (bm_data b) + length (wire_mmsg ms) < 2 ^ 63"
  shows "\<exists>b'. write_mmsg X ms b = Inr b' \<and> bm_wf b' \<and> bm_data b' = bm_data b @ wire_mmsg ms"
proof -
  define n where "n = 4 + length (concat (map wire_msg ms))"
  define l where "l = length (concat (map wire_msg ms))"
  let ?ovf = "overflow_checks X"
  from ok have n: "n < 2 ^ 31" by (simp add: mmsg_ok_def n_def)
  have "fold_sizes ?ovf (word_of_nat 0) ms = Inr (word_of_nat (0 + l))"
    unfolding l_def by (rule fold_sizes_of_nat) (use n in \<open>simp add: n_def\<close>)
  then have fold: "fold_sizes ?ovf 0 ms = Inr (word_of_nat l)" by simp
  have "add_i32 ?ovf (word_of_nat l) (word_of_nat 4) = Inr (word_of_nat (l + 4))"
    by (rule add_i32_of_nat) (use n in \<open>simp add: n_def l_def\<close>)
  then have body: "add_i32 ?ovf (word_of_nat l) 4 = Inr (word_of_nat n)"
    by (simp add: n_def l_def add.commute)
  have size: "i32_as_usize (word_of_nat n) = n" using n by (rule i32_as_usize_nonneg)
  have total: "add_usize ?ovf n 4 = Inr (n + 4)" using n by (simp add: add_usize_def)
  have len': "length (bm_data b) + (n + 4) < 2 ^ 63"
    using len by (simp add: wire_mmsg_def n_def)
  obtain c where c: "check_and_reserve X (n + 4) b = Inr (b\<lparr>bm_cap := c\<rparr>)"
      "length (bm_data b) + (n + 4) \<le> c"
    by (rule check_and_reserve_ok [OF X wf len'])
  let ?b2 = "b\<lparr>bm_cap := c, bm_data := bm_data b @ be_bytes 4 n\<rparr>"
  let ?b3 = "b\<lparr>bm_cap := c, bm_data := bm_data b @ be_bytes 4 n @ be_bytes 4 (length ms)\<rparr>"
  have small: "n < 2 ^ 32" "length ms < 2 ^ 32" and four: "4 \<le> n"
    using n length_wire_msgs [of ms] by (simp_all add: n_def)
  have put1: "put_len n (b\<lparr>bm_cap := c\<rparr>) = Inr ?b2"
    using c(2) by (simp add: put_len_eq [OF small(1)] bm_put_def bm_remaining_def)
  have put2: "put_len (length ms) ?b2 = Inr ?b3"
    using c(2) four by (simp add: put_len_eq [OF small(2)] bm_put_def bm_remaining_def)
  have "bm_wf ?b3" using c(2) four by (simp add: bm_wf_def)
  then have "\<exists>b'. for_each (write_msg X) ms ?b3 = Inr b' \<and> bm_wf b' \<and>
      bm_data b' = bm_data ?b3 @ concat (map wire_msg ms)"
    using X ok len' by (intro msg_writer.for_each_appends) (auto simp: n_def intro: mmsg_ok_msg_ok)
  moreover have "write_mmsg X ms b = for_each (write_msg X) ms ?b3"
    by (simp only: write_mmsg_def Let_def fold body size total c(1) put1 put2 rbind_simps)
  ultimately show ?thesis by (simp add: wire_mmsg_def n_def)
qed

interpretation mmsg_writer: wire_writer write_mmsg wire_mmsg mmsg_ok
  by unfold_locales (rule write_mmsg_appends)

section \<open>Decoding inverts the layout of a message\<close>

text \<open>The layout nsqd gives the body of a message frame.\<close>

definition encode_msg :: "i64 \<Rightarrow> u16 \<Rightarrow> string \<Rightarrow> bytes \<Rightarrow> bytes" where
  "encode_msg ts att ident body =
     be_bytes 8 (unat ts) @ be_bytes 2 (unat att) @ as_bytes ident @ body"

lemma decode_msg_in_range:
  assumes "26 \<le> length buf"
  shows "decode_msg X buf =
    Inr (read_i64 (take 8 buf), read_u16 (take 2 (drop 8 buf)),
         (case from_utf8 (take 16 (drop 10 buf)) of Some s \<Rightarrow> s | None \<Rightarrow> []), drop 26 buf)"
  using assms by (simp add: decode_msg_def split_to_in_range read_n_def)

lemma decode_msg_short:
  assumes "split_law X" "length buf < 26"
  shows "decode_msg X buf = Inl SplitOutOfBounds"
proof -
  consider "length buf < 8" | "8 \<le> length buf" "length buf < 10" | "10 \<le> length buf"
    by linarith
  then show ?thesis
    using assms
    by cases (simp_all add: decode_msg_def split_to_in_range split_to_beyond read_n_def)
qed

lemma decode_encode:
  assumes "length ident = 16" "valid_str ident"
  shows "decode_msg X (encode_msg ts att ident body) = Inr (ts, att, ident, body)"
proof -
  have "from_utf8 (as_bytes ident) = Some ident"
    using assms(2) by (rule from_utf8_as_bytes)
  then show ?thesis
    using assms(1) by (simp add: decode_msg_in_range encode_msg_def read_be_bytes)
qed

text \<open>
  C27: \<open>decode_msg\<close> recovers timestamp, attempts, identifier and body of every message laid
  out as nsqd does, for every identifier of 16 bytes of UTF-8.
\<close>

theorem decode_msg_roundtrip:
  assumes "length ident = 16" "valid_str ident"
  shows "decode_msg X (encode_msg ts att ident body) = Inr (ts, att, ident, body)"
  using assms by (rule decode_encode)

theorem decode_msg_roundtrip_witness:
  "decode_msg (std_ext True [] nsqd_config_default)
     (encode_msg 5 2 ''0123456789abcdef'' [7]) = Inr (5, 2, ''0123456789abcdef'', [7])"
  by (rule decode_msg_roundtrip) (simp_all add: valid_str_def utf8_ranges_def)

text \<open>
  C27: \<open>decode_msg\<close> ends normally exactly on buffers of at least 26 bytes (timestamp,
  attempts and identifier) and panics on shorter ones, which no caller excludes. An
  identifier that is not UTF-8 is replaced by the empty string and the body is kept.
\<close>

lemma decode_msg_total_from_26:
  assumes "split_law X"
  shows "(\<exists>r. decode_msg X buf = Inr r) = (26 \<le> length buf) \<and>
    (length buf < 26 \<longrightarrow> decode_msg X buf = Inl SplitOutOfBounds) \<and>
    (26 \<le> length buf \<and> \<not> utf8_valid (take 16 (drop 10 buf)) \<longrightarrow>
       (\<exists>ts att. decode_msg X buf = Inr (ts, att, [], drop 26 buf)))"
proof (cases "26 \<le> length buf")
  case True
  then show ?thesis by (simp add: decode_msg_in_range from_utf8_def)
next
  case False
  with decode_msg_short [OF assms] show ?thesis by simp
qed

lemma decode_msg_total_from_26_example:
  "decode_msg (std_ext False [] nsqd_config_default) (replicate 25 0) = Inl SplitOutOfBounds"
  using decode_msg_total_from_26 [OF std_ext_laws(2), of False "[]" nsqd_config_default
    "replicate 25 0"] by simp

end
