(* ===== verification/Io.thy ===== *)
theory Io
  imports Msgs
begin

text \<open>
  The client's surroundings: unbounded channels between threads (FIFO queues, with the
  contract \<open>fifo\<close>) and byte streams. A stream (a TCP or a TLS socket) is given by what it
  will answer: \<open>s_in\<close> lists the outcomes of the coming reads, \<open>s_wr\<close> those of the coming
  writes, \<open>s_out\<close> the bytes the peer has been sent so far. Theorems quantify over these
  scripts, so they hold for every behaviour of the network.
\<close>

section \<open>Channels\<close>

type_synonym 'a channel = "'a list"

definition ch_send :: "'a \<Rightarrow> 'a channel \<Rightarrow> 'a channel" where
  "ch_send x ch = ch @ [x]"

fun ch_try_recv :: "'a channel \<Rightarrow> 'a option \<times> 'a channel" where
  "ch_try_recv [] = (None, [])"
| "ch_try_recv (x # ch) = (Some x, ch)"

lemma ch_try_recv_shrinks: "(Some x, ch') = ch_try_recv ch \<Longrightarrow> length ch' < length ch"
  by (cases ch) auto

text \<open>\<open>try_iter().collect()\<close>: receive until the channel is empty.\<close>

function ch_try_iter :: "'a channel \<Rightarrow> 'a list \<times> 'a channel" where
  "ch_try_iter ch =
     (case ch_try_recv ch of
        (None, ch') \<Rightarrow> ([], ch')
      | (Some x, ch') \<Rightarrow> (case ch_try_iter ch' of (xs, ch'') \<Rightarrow> (x # xs, ch'')))"
  by pat_completeness auto
termination
  by (relation "measure length") (auto dest: ch_try_recv_shrinks)

declare ch_try_iter.simps [simp del]

lemma ch_try_iter_all [simp]: "ch_try_iter ch = (ch, [])"
  by (induction ch) (simp_all add: ch_try_iter.simps)

locale fifo =
  fixes snd_op :: "'a \<Rightarrow> 'q \<Rightarrow> 'q"
    and rcv_op :: "'q \<Rightarrow> 'a option \<times> 'q"
    and iter_op :: "'q \<Rightarrow> 'a list \<times> 'q"
    and pending :: "'q \<Rightarrow> 'a list"
  assumes pending_send: "pending (snd_op x q) = pending q @ [x]"
    and rcv_none: "pending q = [] \<Longrightarrow> fst (rcv_op q) = None \<and> pending (snd (rcv_op q)) = []"
    and rcv_some: "pending q = x # xs \<Longrightarrow> fst (rcv_op q) = Some x \<and> pending (snd (rcv_op q)) = xs"
    and iter_all: "fst (iter_op q) = pending q \<and> pending (snd (iter_op q)) = []"
begin

lemma pending_fold: "pending (fold snd_op xs q) = pending q @ xs"
  by (induction xs arbitrary: q) (simp_all add: pending_send)

lemma send_then_drain:
  "pending q = [] \<Longrightarrow> fst (iter_op (fold snd_op xs q)) = xs"
  by (simp add: iter_all pending_fold)

lemma rcv_first_sent:
  "pending q = x # xs \<Longrightarrow> fst (rcv_op (snd_op y q)) = Some x"
  using rcv_some [of "snd_op y q" x "xs @ [y]"] by (simp add: pending_send)

end

interpretation chan: fifo ch_send ch_try_recv ch_try_iter "\<lambda>ch. ch"
  by unfold_locales (simp_all add: ch_send_def)

section \<open>Byte streams\<close>

datatype io_err = WouldBlock | OtherIoErr

datatype rd_outcome = RdData bytes | RdEof | RdErr io_err
datatype wr_outcome = WrOk nat | WrErr io_err

record sock =
  s_in :: "rd_outcome list"
  s_wr :: "wr_outcome list"
  s_out :: bytes

text \<open>
  A read into a buffer of \<open>n\<close> bytes returns at most \<open>n\<close> bytes; what does not fit stays in
  the stream. A stream with nothing left to say would block.
\<close>

fun read_outcome :: "nat \<Rightarrow> rd_outcome list \<Rightarrow> (io_err + bytes) \<times> rd_outcome list" where
  "read_outcome n [] = (Inl WouldBlock, [])"
| "read_outcome n (RdErr e # rs) = (Inl e, rs)"
| "read_outcome n (RdEof # rs) = (Inr [], rs)"
| "read_outcome n (RdData bs # rs) =
     (Inr (take n bs), if length bs \<le> n then rs else RdData (drop n bs) # rs)"

definition sock_read :: "nat \<Rightarrow> sock \<Rightarrow> (io_err + bytes) \<times> sock" where
  "sock_read n sk = (case read_outcome n (s_in sk) of (r, rs) \<Rightarrow> (r, sk\<lparr>s_in := rs\<rparr>))"

text \<open>A write hands over a prefix of the buffer and says how long the prefix was.\<close>

fun sock_write :: "bytes \<Rightarrow> sock \<Rightarrow> (io_err + nat) \<times> sock" where
  "sock_write bs sk =
     (case s_wr sk of
        [] \<Rightarrow> (Inr (length bs), sk\<lparr>s_out := s_out sk @ bs\<rparr>)
      | WrErr e # ws \<Rightarrow> (Inl e, sk\<lparr>s_wr := ws\<rparr>)
      | WrOk n # ws \<Rightarrow>
          (Inr (min n (length bs)), sk\<lparr>s_wr := ws, s_out := s_out sk @ take n bs\<rparr>))"

declare sock_write.simps [simp del]

lemma sock_read_length:
  "sock_read n sk = (Inr bs, sk') \<Longrightarrow> length bs \<le> n"
  by (cases "(n, s_in sk)" rule: read_outcome.cases) (auto simp: sock_read_def)

lemma sock_write_accepting [simp]:
  "s_wr sk = [] \<Longrightarrow> sock_write bs sk = (Inr (length bs), sk\<lparr>s_out := s_out sk @ bs\<rparr>)"
  by (simp add: sock_write.simps)

lemma sock_write_prefix:
  assumes "sock_write bs sk = (res, sk')"
  shows "\<exists>k \<le> length bs. s_out sk' = s_out sk @ take k bs \<and>
    (case res of Inr n \<Rightarrow> n = k | Inl e \<Rightarrow> k = 0)"
proof (cases "s_wr sk")
  case Nil
  with assms show ?thesis by (intro exI [of _ "length bs"]) (auto simp: sock_write.simps)
next
  case (Cons w ws)
  show ?thesis
  proof (cases w)
    case (WrOk n)
    with assms Cons show ?thesis
      by (intro exI [of _ "min n (length bs)"]) (auto simp: sock_write.simps min_def)
  next
    case (WrErr e)
    with assms Cons show ?thesis by (auto simp: sock_write.simps)
  qed
qed

end
