(* ===== verification/Conn.thy ===== *)
theory Conn
  imports Codec Io
begin

text \<open>
  \<open>src/conn.rs\<close>: the connection state, decoding of frames from the read buffer, writing of
  commands, the handshake operations, and the connection attempt \<open>connect\<close>. The fields
  \<open>s\<close>, \<open>r\<close>, \<open>config\<close> and \<open>state\<close> of the struct carry the prefix \<open>conn_\<close>; \<open>now\<close> and
  \<open>handle\<close>, which nothing reads, are left out. \<open>conn_s\<close> lists everything that has been
  sent to the readers, \<open>conn_r\<close> holds the commands that wait to be written.
\<close>

definition CONNECTION :: nat where "CONNECTION = 5067"

datatype state =
    SStart | SIdentify | STlsNegotiating | STls | SAuth | SSubscribe | SRdy | SStarted

record conn =
  w_buf :: bytes_mut
  r_buf :: bytes
  conn_s :: "bytes_msg channel"
  conn_r :: "cmd channel"
  s_info :: "conn_msg_info channel"
  heartbeat :: bool
  responses :: "response list"
  conn_config :: config
  in_flight :: u32
  processed :: u32
  need_response :: bool
  conn_state :: state
  last_time_sent :: i64
  msg_timeout :: u64

definition conn_new ::
  "ext \<Rightarrow> config \<Rightarrow> cmd channel \<Rightarrow> bytes_msg channel \<Rightarrow> conn_msg_info channel \<Rightarrow> u64 \<Rightarrow> conn"
where
  "conn_new X cfg rx tx info timeout =
     \<lparr>w_buf = bm_new X,
      r_buf = [],
      conn_s = tx,
      conn_r = rx,
      s_info = info,
      heartbeat = False,
      responses = [],
      conn_config = cfg,
      in_flight = 0,
      processed = 0,
      need_response = False,
      conn_state = SStart,
      last_time_sent = 0,
      msg_timeout = 0\<rparr>"

section \<open>Writing commands\<close>

definition conn_write_cmd :: "ext \<Rightarrow> nsq_cmd \<Rightarrow> conn \<Rightarrow> panic + conn" where
  "conn_write_cmd X a c =
     (let m = as_cmd a in
      rbind (write_cmd X (cmd_cmd m) (w_buf c)) (\<lambda>b.
      if cmd_msg m = [] then Inr (c\<lparr>w_buf := b\<rparr>)
      else if length (cmd_msg m) = 1 then
        rbind (write_msg X (cmd_msg m ! 0) b) (\<lambda>b'. Inr (c\<lparr>w_buf := b'\<rparr>))
      else
        rbind (write_mmsg X (cmd_msg m) b) (\<lambda>b'. Inr (c\<lparr>w_buf := b'\<rparr>))))"

definition magic :: "ext \<Rightarrow> conn \<Rightarrow> panic + conn" where
  "magic X c =
     rbind (write_magic X VERSION (w_buf c)) (\<lambda>b. Inr (c\<lparr>w_buf := b, conn_state := SIdentify\<rparr>))"

definition identify :: "ext \<Rightarrow> conn \<Rightarrow> panic + conn" where
  "identify X c =
     (case x_config_json X (conn_config c) of
        None \<Rightarrow> Inl UnwrapErr
      | Some j \<Rightarrow>
          rbind (conn_write_cmd X (RawCmd (as_cmd (Identify j))) c) (\<lambda>c'.
          Inr (c'\<lparr>conn_state := SIdentify, need_response := True\<rparr>)))"

definition auth :: "ext \<Rightarrow> string \<Rightarrow> conn \<Rightarrow> panic + conn" where
  "auth X secret c =
     rbind (conn_write_cmd X (Auth secret) c) (\<lambda>c'.
     Inr (c'\<lparr>conn_state := SAuth, need_response := True\<rparr>))"

definition subscribe :: "ext \<Rightarrow> string \<Rightarrow> string \<Rightarrow> conn \<Rightarrow> panic + conn" where
  "subscribe X topic channel c =
     rbind (conn_write_cmd X (Subscribe topic channel) c) (\<lambda>c'.
     Inr (c'\<lparr>conn_state := SSubscribe, need_response := True\<rparr>))"

definition conn_rdy :: "ext \<Rightarrow> u32 \<Rightarrow> conn \<Rightarrow> panic + conn" where
  "conn_rdy X n c =
     rbind (conn_write_cmd X (Rdy n) c) (\<lambda>c'.
     Inr (c'\<lparr>conn_state := SStarted, need_response := False\<rparr>))"

text \<open>\<open>tls_enabled\<close> also sets the caller's flag, which is the first component.\<close>

definition tls_enabled :: "conn \<Rightarrow> u8 \<times> conn" where
  "tls_enabled c = (1, c\<lparr>conn_state := STls\<rparr>)"

definition heartbeat_done :: "conn \<Rightarrow> conn" where
  "heartbeat_done c = c\<lparr>heartbeat := False\<rparr>"

section \<open>Responses\<close>

fun get_response :: "response \<Rightarrow> unit + string" where
  "get_response (Response r) = Inr r"
| "get_response (RError e) = Inl ()"

definition conn_get_response :: "conn \<Rightarrow> panic + (unit + string) \<times> conn" where
  "conn_get_response c =
     (if responses c = [] then Inl UnwrapNone
      else Inr (get_response (last (responses c)), c\<lparr>responses := butlast (responses c)\<rparr>))"

section \<open>The socket\<close>

definition write_tcp :: "conn \<Rightarrow> sock \<Rightarrow> (io_err + nat) \<times> conn \<times> sock" where
  "write_tcp c sk =
     (case sock_write (bm_data (w_buf c)) sk of
        (Inr n, sk') \<Rightarrow> (Inr n, c\<lparr>w_buf := bm_clear (w_buf c)\<rparr>, sk')
      | (Inl e, sk') \<Rightarrow> (Inl e, c\<lparr>w_buf := bm_clear (w_buf c)\<rparr>, sk'))"

text \<open>\<open>write\<close>, the name under which the other parts of the program call it.\<close>

definition conn_write :: "conn \<Rightarrow> sock \<Rightarrow> (io_err + nat) \<times> conn \<times> sock" where
  [simp]: "conn_write c sk = write_tcp c sk"

text \<open>
  The loop of \<open>write_messages\<close>. \<open>clock i\<close> is what \<open>Utc::now().timestamp()\<close> answers in the
  \<open>i\<close>th round. Flushing has no effect on the modelled state; its errors are only logged,
  like those of the write.
\<close>

fun write_message_loop ::
  "ext \<Rightarrow> (nat \<Rightarrow> i64) \<Rightarrow> cmd list \<Rightarrow> conn \<Rightarrow> sock \<Rightarrow> panic + conn \<times> sock"
where
  "write_message_loop X clock [] c sk = Inr (c, sk)"
| "write_message_loop X clock (m # ms) c sk =
     rbind (conn_write_cmd X (RawCmd m) c) (\<lambda>c1.
     case conn_write c1 sk of (_, c2, sk') \<Rightarrow>
     rbind (sub_u32 (overflow_checks X) (in_flight c2) 1) (\<lambda>fl.
     rbind (add_u32 (overflow_checks X) (processed c2) 1) (\<lambda>pr.
     write_message_loop X (\<lambda>i. clock (Suc i)) ms
       (c2\<lparr>last_time_sent := clock 0, in_flight := fl, processed := pr\<rparr>) sk')))"

definition write_messages ::
  "ext \<Rightarrow> (nat \<Rightarrow> i64) \<Rightarrow> conn \<Rightarrow> sock \<Rightarrow> panic + conn \<times> sock"
where
  "write_messages X clock c sk =
     (case ch_try_iter (conn_r c) of (msgs, rest) \<Rightarrow>
        write_message_loop X clock msgs (c\<lparr>conn_r := rest\<rparr>) sk)"

section \<open>Decoding frames\<close>

text \<open>What the loop body does with a whole frame it has taken off the buffer.\<close>

definition handle_frame :: "ext \<Rightarrow> i32 \<Rightarrow> bytes \<Rightarrow> conn \<Rightarrow> panic + conn" where
  "handle_frame X frame_type frame c =
     (if frame_type = FRAME_TYPE_MESSAGE then
        (let c1 = c\<lparr>conn_s := ch_send (BytesMsg (msg_timeout c) frame) (conn_s c)\<rparr> in
         rbind (add_u32 (overflow_checks X) (in_flight c1) 1) (\<lambda>fl. Inr (c1\<lparr>in_flight := fl\<rparr>)))
      else
        rbind (unwrap_opt (from_utf8 frame)) (\<lambda>s.
        if s = HEARTBEAT then Inr (c\<lparr>heartbeat := True\<rparr>)
        else if frame_type = FRAME_TYPE_RESPONSE then
          Inr (c\<lparr>responses := responses c @ [Response s]\<rparr>)
        else if frame_type = FRAME_TYPE_ERROR then
          Inr (c\<lparr>responses := responses c @ [RError s]\<rparr>)
        else Inr c))"

text \<open>
  One round of the loop: \<open>None\<close> is a return, \<open>Some c\<close> the state for the next round. \<open>sz\<close>
  is the parameter \<open>size\<close>, the number of bytes the last read returned.
\<close>

definition decode_step :: "ext \<Rightarrow> nat \<Rightarrow> conn \<Rightarrow> panic + conn option" where
  "decode_step X sz c =
     (if r_buf c = [] then Inr None
      else if sz < HEADER_LENGTH then Inr None
      else
        let buf_len = length (r_buf c) in
        if buf_len < HEADER_LENGTH then Inr None
        else
          let frame_size = i32_as_usize (read_i32 (take 4 (r_buf c))) in
          if sz < frame_size then Inr None
          else if buf_len < frame_size then Inr None
          else
            rbind (split_to X 4 (r_buf c)) (\<lambda>(_, buf1).
            rbind (split_to X 4 buf1) (\<lambda>(type_bytes, buf2).
            rbind (sub_usize (overflow_checks X) frame_size 4) (\<lambda>n.
            rbind (split_to X n buf2) (\<lambda>(frame, buf3).
            rbind (handle_frame X (read_i32 type_bytes) frame (c\<lparr>r_buf := buf3\<rparr>))
              (\<lambda>c'. Inr (Some c')))))))"

lemma handle_frame_r_buf:
  "handle_frame X ty frame c = Inr c' \<Longrightarrow> r_buf c' = r_buf c"
  by (auto simp: handle_frame_def Let_def split: if_splits)

lemma decode_step_consumes:
  assumes "decode_step X sz c = Inr (Some c')"
  shows "length (r_buf c') + 8 \<le> length (r_buf c)"
  using assms
  by (auto simp: decode_step_def Let_def HEADER_LENGTH_def split: if_splits
      dest!: handle_frame_r_buf split_to_shrinks)

function decode :: "ext \<Rightarrow> nat \<Rightarrow> conn \<Rightarrow> panic + conn" where
  "decode X sz c =
     (case decode_step X sz c of
        Inl p \<Rightarrow> Inl p
      | Inr None \<Rightarrow> Inr c
      | Inr (Some c') \<Rightarrow> decode X sz c')"
  by pat_completeness auto
termination
  by (relation "measure (\<lambda>(X, sz, c). length (r_buf c))") (auto dest!: sym [of "Inr (Some _)"] decode_step_consumes)

declare decode.simps [simp del]

definition read_tcp :: "ext \<Rightarrow> conn \<Rightarrow> sock \<Rightarrow> panic + (io_err + nat) \<times> conn \<times> sock" where
  "read_tcp X c sk =
     (case sock_read (unat (output_buffer_size (conn_config c))) sk of
        (Inl e, sk') \<Rightarrow> Inr (Inl e, c, sk')
      | (Inr bs, sk') \<Rightarrow>
          if bs = [] then Inr (Inr 0, c, sk')
          else
            rbind (decode X (length bs) (c\<lparr>r_buf := r_buf c @ bs\<rparr>)) (\<lambda>c'.
            Inr (Inr (length bs), c', sk')))"

definition conn_read :: "ext \<Rightarrow> conn \<Rightarrow> sock \<Rightarrow> panic + (io_err + nat) \<times> conn \<times> sock" where
  [simp]: "conn_read X c sk = read_tcp X c sk"

section \<open>Connecting\<close>

text \<open>
  What \<open>net2\<close> and the system answer: the platform, whether an IPv4 socket can be made, bound
  to port 4150 (on Windows only) and turned into a stream, which addresses it can be connected
  to, and whether the receive buffer size of the stream can be set.
\<close>

record 'a net =
  net_windows :: bool
  net_builder :: bool
  net_bind :: bool
  net_stream :: bool
  net_connect :: "'a \<Rightarrow> bool"
  net_recv_size :: "'a \<Rightarrow> bool"

text \<open>\<open>expect\<close> and \<open>unwrap\<close> on the result of a call of which only the success matters.\<close>

definition expect_ok :: "bool \<Rightarrow> panic + unit" where
  "expect_ok ok = (if ok then Inr () else Inl UnwrapErr)"

definition socket_connect :: "'a net \<Rightarrow> 'a \<Rightarrow> panic + (unit + 'a)" where
  "socket_connect N addr =
     rbind
       (if net_windows N then
          rbind (expect_ok (net_builder N)) (\<lambda>_.
          rbind (expect_ok (net_bind N)) (\<lambda>_. expect_ok (net_stream N)))
        else
          rbind (expect_ok (net_builder N)) (\<lambda>_. expect_ok (net_stream N)))
       (\<lambda>_. Inr (if net_connect N addr then Inr addr else Inl ()))"

datatype 'a connect_result = Stream 'a | ConnectExit nat | ConnectPanic panic

text \<open>
  The loop of \<open>connect\<close>. \<open>backoff i\<close> is the \<open>i\<close>th answer of \<open>next_backoff\<close>; the second
  component of the result lists the addresses tried, the third the times slept.
\<close>

fun connect_loop ::
  "'a net \<Rightarrow> (nat \<Rightarrow> nat option) \<Rightarrow> nat \<Rightarrow> 'a list \<Rightarrow> 'a connect_result \<times> 'a list \<times> nat list"
where
  "connect_loop N backoff i [] = (ConnectPanic UnwrapNone, [], [])"
| "connect_loop N backoff i (a # addrs) =
     (case socket_connect N a of
        Inl p \<Rightarrow> (ConnectPanic p, [a], [])
      | Inr (Inr s) \<Rightarrow>
          (if net_recv_size N s then Stream s else ConnectPanic ExplicitPanic, [a], [])
      | Inr (Inl _) \<Rightarrow>
          (case connect_loop N backoff (Suc i) addrs of (r, tried, slept) \<Rightarrow>
             (r, a # tried,
              (case backoff i of Some t \<Rightarrow> t # slept | None \<Rightarrow> slept))))"

definition connect ::
  "'a list option \<Rightarrow> 'a net \<Rightarrow> (nat \<Rightarrow> nat option) \<Rightarrow> 'a connect_result \<times> 'a list \<times> nat list"
where
  "connect lookup N backoff =
     (case lookup of
        None \<Rightarrow> (ConnectExit 1, [], [])
      | Some addrs \<Rightarrow> connect_loop N backoff 0 addrs)"

definition socket_made :: "'a net \<Rightarrow> bool" where
  "socket_made N \<longleftrightarrow> net_builder N \<and> net_stream N \<and> (net_windows N \<longrightarrow> net_bind N)"

lemma socket_connect_eq:
  "socket_connect N a =
     (if \<not> socket_made N then Inl UnwrapErr
      else Inr (if net_connect N a then Inr a else Inl ()))"
  by (auto simp: socket_connect_def socket_made_def expect_ok_def)

text \<open>The addresses at the front that refuse, once a socket can be made.\<close>

definition refused :: "'a net \<Rightarrow> 'a list \<Rightarrow> 'a list" where
  "refused N addrs = takeWhile (\<lambda>a. socket_made N \<and> \<not> net_connect N a) addrs"

text \<open>What the first address that does not refuse ends in.\<close>

definition settled :: "'a net \<Rightarrow> 'a \<Rightarrow> 'a connect_result" where
  "settled N a =
     (if \<not> socket_made N then ConnectPanic UnwrapErr
      else if net_recv_size N a then Stream a else ConnectPanic ExplicitPanic)"

lemma connect_loop_eq:
  "connect_loop N backoff i addrs =
     (let n = length (refused N addrs);
          slept = List.map_filter backoff [i..<i + n]
      in case drop n addrs of
           [] \<Rightarrow> (ConnectPanic UnwrapNone, addrs, slept)
         | a # _ \<Rightarrow> (settled N a, refused N addrs @ [a], slept))"
proof (induction addrs arbitrary: i)
  case Nil
  then show ?case by (simp add: refused_def List.map_filter_def)
next
  case (Cons a addrs)
  have upt: "[i..<Suc (i + n)] = i # [Suc i..<Suc (i + n)]" for n
    by (simp add: upt_conv_Cons)
  show ?case
  proof (cases "socket_made N \<and> \<not> net_connect N a")
    case True
    then have "refused N (a # addrs) = a # refused N addrs" by (simp add: refused_def)
    with True show ?thesis
      by (simp add: socket_connect_eq Cons.IH Let_def upt List.map_filter_simps del: upt_Suc
          split: list.split option.split)
  next
    case False
    then have "refused N (a # addrs) = []" by (auto simp: refused_def)
    with False show ?thesis by (auto simp: socket_connect_eq settled_def List.map_filter_def)
  qed
qed

text \<open>A network on which every address accepts.\<close>

definition good_net :: "'a net" where
  "good_net =
     \<lparr>net_windows = False, net_builder = True, net_bind = True, net_stream = True,
      net_connect = (\<lambda>a. True), net_recv_size = (\<lambda>a. True)\<rparr>"

lemma connect_good [simp]: "fst (connect (Some (a # addrs)) good_net backoff) = Stream a"
  by (simp add: connect_def socket_connect_eq socket_made_def good_net_def)

end
