(* ===== verification/Conn_Write.thy ===== *)
theory Conn_Write
  imports Conn
begin

text \<open>
  What \<open>Conn\<close> puts on the wire: \<open>wire_cmd\<close> is the reference encoding of a command,
  \<open>conn_write_cmd\<close> appends it to the write buffer, \<open>write_tcp\<close> hands the buffer to the
  socket once, and \<open>write_messages\<close> does both for every waiting command.
\<close>

section \<open>The reference encoding\<close>

definition wire_body :: "bytes list \<Rightarrow> bytes" where
  "wire_body ms = (case ms of [] \<Rightarrow> [] | [m] \<Rightarrow> wire_msg m | _ \<Rightarrow> wire_mmsg ms)"

definition wire_cmd :: "nsq_cmd \<Rightarrow> bytes" where
  "wire_cmd a = wire_line (nsq_cmd_cmd a) @ wire_body (nsq_cmd_msg a)"

definition body_ok :: "bytes list \<Rightarrow> bool" where
  "body_ok ms \<longleftrightarrow> (case ms of [] \<Rightarrow> True | [m] \<Rightarrow> msg_ok m | _ \<Rightarrow> mmsg_ok ms)"

definition cmd_ok :: "nsq_cmd \<Rightarrow> bool" where
  "cmd_ok a \<longleftrightarrow> body_ok (nsq_cmd_msg a)"

lemma wire_body_simps [simp]:
  "wire_body [] = []"
  "wire_body [m] = wire_msg m"
  "wire_body (m # m' # ms) = wire_mmsg (m # m' # ms)"
  by (simp_all add: wire_body_def)

lemma body_ok_simps [simp]:
  "body_ok []"
  "body_ok [m] = msg_ok m"
  "body_ok (m # m' # ms) = mmsg_ok (m # m' # ms)"
  by (simp_all add: body_ok_def)

lemma wire_cmd_RawCmd [simp]: "wire_cmd (RawCmd (as_cmd a)) = wire_cmd a"
  by (simp add: wire_cmd_def)

lemma body_ok_many: "2 \<le> length ms \<Longrightarrow> body_ok ms = mmsg_ok ms"
  by (cases ms; cases "tl ms") auto

lemma cmd_ok_RawCmd [simp]: "cmd_ok (RawCmd (as_cmd a)) = cmd_ok a"
  by (simp add: cmd_ok_def)

text \<open>The buffer part of \<open>conn_write_cmd\<close>.\<close>

definition write_command :: "ext \<Rightarrow> nsq_cmd \<Rightarrow> bytes_mut \<Rightarrow> panic + bytes_mut" where
  "write_command X a b =
     rbind (write_cmd X (nsq_cmd_cmd a) b)
       (case nsq_cmd_msg a of
          [] \<Rightarrow> Inr
        | [m] \<Rightarrow> write_msg X m
        | _ \<Rightarrow> write_mmsg X (nsq_cmd_msg a))"

lemma rbind_Inr_right [simp]: "rbind m Inr = m"
  by (cases m) auto

lemma conn_write_cmd_eq:
  "conn_write_cmd X a c = rbind (write_command X a (w_buf c)) (\<lambda>b. Inr (c\<lparr>w_buf := b\<rparr>))"
  by (cases "write_cmd X (nsq_cmd_cmd a) (w_buf c)")
    (auto simp: conn_write_cmd_def write_command_def Let_def split: list.split)

lemma write_command_appends:
  assumes X: "reserve_law X" and wf: "bm_wf b" and ok: "cmd_ok a"
    and len: "length (bm_data b) + length (wire_cmd a) < 2 ^ 63"
  shows "\<exists>b'. write_command X a b = Inr b' \<and> bm_wf b' \<and> bm_data b' = bm_data b @ wire_cmd a"
proof -
  have "length (bm_data b) + length (wire_line (nsq_cmd_cmd a)) < 2 ^ 63"
    using len by (simp add: wire_cmd_def)
  then obtain b1 where b1: "write_cmd X (nsq_cmd_cmd a) b = Inr b1" "bm_wf b1"
      "bm_data b1 = bm_data b @ wire_line (nsq_cmd_cmd a)"
    by (rule cmd_writer.wrE [OF X wf TrueI])
  then have len1: "length (bm_data b1) + length (wire_body (nsq_cmd_msg a)) < 2 ^ 63"
    using len by (simp add: wire_cmd_def)
  consider "nsq_cmd_msg a = []" | m where "nsq_cmd_msg a = [m]"
    | m m' ms where "nsq_cmd_msg a = m # m' # ms"
    by (metis list.exhaust)
  then show ?thesis
  proof cases
    case 1
    with b1 show ?thesis by (simp add: write_command_def wire_cmd_def)
  next
    case 2
    with b1 ok len1 msg_writer.wr_appends [OF X b1(2), of m] show ?thesis
      by (auto simp: write_command_def wire_cmd_def cmd_ok_def)
  next
    case 3
    with b1 ok len1 mmsg_writer.wr_appends [OF X b1(2), of "m # m' # ms"] show ?thesis
      by (auto simp: write_command_def wire_cmd_def cmd_ok_def)
  qed
qed

interpretation command_writer: wire_writer write_command wire_cmd cmd_ok
  by unfold_locales (rule write_command_appends)

lemma conn_write_cmdE:
  assumes "reserve_law X" "bm_wf (w_buf c)" "cmd_ok a"
    and "length (bm_data (w_buf c)) + length (wire_cmd a) < 2 ^ 63"
  obtains b where "conn_write_cmd X a c = Inr (c\<lparr>w_buf := b\<rparr>)" "bm_wf b"
    "bm_data b = bm_data (w_buf c) @ wire_cmd a"
proof -
  obtain b where b: "write_command X a (w_buf c) = Inr b" "bm_wf b"
      "bm_data b = bm_data (w_buf c) @ wire_cmd a"
    by (rule command_writer.wrE [OF assms])
  then have "conn_write_cmd X a c = Inr (c\<lparr>w_buf := b\<rparr>)" by (simp add: conn_write_cmd_eq)
  then show ?thesis using b(2,3) by (rule that)
qed

lemma conn_write_cmd_frame:
  "conn_write_cmd X a c = Inr c' \<Longrightarrow> c' = c\<lparr>w_buf := w_buf c'\<rparr>"
  by (auto simp: conn_write_cmd_eq)

section \<open>Handing the buffer to the socket\<close>

lemma write_tcp_eq:
  "write_tcp c sk =
     (fst (sock_write (bm_data (w_buf c)) sk), c\<lparr>w_buf := bm_clear (w_buf c)\<rparr>,
      snd (sock_write (bm_data (w_buf c)) sk))"
  by (auto simp: write_tcp_def split: prod.split sum.split)

lemma write_tcp_accepting [simp]:
  "s_wr sk = [] \<Longrightarrow>
     write_tcp c sk = (Inr (length (bm_data (w_buf c))), c\<lparr>w_buf := bm_clear (w_buf c)\<rparr>,
       sk\<lparr>s_out := s_out sk @ bm_data (w_buf c)\<rparr>)"
  by (simp add: write_tcp_eq)

section \<open>The queue of waiting commands\<close>

text \<open>
  The counters stay within \<open>u32\<close> for \<open>n\<close> commands, or the build wraps around.
\<close>

definition counters_ok :: "ext \<Rightarrow> nat \<Rightarrow> conn \<Rightarrow> bool" where
  "counters_ok X n c \<longleftrightarrow>
     overflow_checks X \<longrightarrow> n \<le> unat (in_flight c) \<and> unat (processed c) + n < 2 ^ 32"

definition batch_ok :: "cmd list \<Rightarrow> bool" where
  "batch_ok ms \<longleftrightarrow> (\<forall>m \<in> set ms. cmd_ok (RawCmd m) \<and> length (wire_cmd (RawCmd m)) < 2 ^ 63)"

lemma counters_step:
  assumes "counters_ok X (Suc n) c"
  shows "sub_u32 (overflow_checks X) (in_flight c) 1 = Inr (in_flight c - 1)"
    "add_u32 (overflow_checks X) (processed c) 1 = Inr (processed c + 1)"
    "counters_ok X n (c\<lparr>w_buf := b, last_time_sent := t, in_flight := in_flight c - 1,
       processed := processed c + 1\<rparr>)"
proof -
  have *: "1 \<le> in_flight c \<and> unat (in_flight c - 1) = unat (in_flight c) - 1 \<and>
      unat (processed c + 1) = unat (processed c) + 1 \<and>
      n \<le> unat (in_flight c) - 1 \<and> unat (processed c) + 1 + n < 2 ^ 32"
    if "overflow_checks X"
  proof -
    from assms that have "Suc n \<le> unat (in_flight c)" "unat (processed c) + Suc n < 2 ^ 32"
      by (simp_all add: counters_ok_def)
    moreover from this have "1 \<le> in_flight c" by (simp add: word_le_nat_alt)
    ultimately show ?thesis by (simp add: unat_sub unat_word_ariths)
  qed
  show "sub_u32 (overflow_checks X) (in_flight c) 1 = Inr (in_flight c - 1)"
    using * by (auto simp: sub_u32_def not_less)
  show "add_u32 (overflow_checks X) (processed c) 1 = Inr (processed c + 1)"
    using assms by (auto simp: add_u32_def counters_ok_def)
  show "counters_ok X n (c\<lparr>w_buf := b, last_time_sent := t, in_flight := in_flight c - 1,
       processed := processed c + 1\<rparr>)"
    using * by (simp add: counters_ok_def)
qed

lemma write_message_loop_keeps:
  "write_message_loop X clock ms c sk = Inr (c', sk') \<Longrightarrow>
     conn_r c' = conn_r c \<and> conn_s c' = conn_s c \<and> r_buf c' = r_buf c \<and>
     conn_state c' = conn_state c \<and> need_response c' = need_response c \<and>
     responses c' = responses c \<and> heartbeat c' = heartbeat c \<and>
     conn_config c' = conn_config c \<and> msg_timeout c' = msg_timeout c \<and> s_info c' = s_info c"
proof (induction ms arbitrary: c sk clock)
  case (Cons m ms)
  then obtain c1 fl pr sk1 where
      c1: "conn_write_cmd X (RawCmd m) c = Inr c1" and
      rec: "write_message_loop X (\<lambda>i. clock (Suc i)) ms
        (c1\<lparr>w_buf := bm_clear (w_buf c1), last_time_sent := clock 0, in_flight := fl,
           processed := pr\<rparr>) sk1 = Inr (c', sk')"
    by (auto simp: write_tcp_eq)
  from c1 obtain b where "c1 = c\<lparr>w_buf := b\<rparr>" by (auto simp: conn_write_cmd_eq)
  with Cons.IH [OF rec] show ?case by simp
qed simp

text \<open>Writing commands always ends, whatever the socket does; the buffer is empty then.\<close>

lemma write_message_loop_total:
  assumes X: "reserve_law X"
  shows "\<lbrakk>bm_wf (w_buf c); list_all (\<lambda>m. cmd_ok (RawCmd m)) ms; counters_ok X (length ms) c;
      length (bm_data (w_buf c)) + length (concat (map (\<lambda>m. wire_cmd (RawCmd m)) ms)) < 2 ^ 63\<rbrakk> \<Longrightarrow>
    \<exists>c' sk'. write_message_loop X clock ms c sk = Inr (c', sk') \<and>
      (ms = [] \<or> bm_data (w_buf c') = [])"
proof (induction ms arbitrary: c sk clock)
  case (Cons m ms)
  from Cons.prems have m: "cmd_ok (RawCmd m)"
      "length (bm_data (w_buf c)) + length (wire_cmd (RawCmd m)) < 2 ^ 63"
    by simp_all
  obtain b where b: "conn_write_cmd X (RawCmd m) c = Inr (c\<lparr>w_buf := b\<rparr>)" "bm_wf b"
    by (rule conn_write_cmdE [OF X Cons.prems(1) m]) simp
  let ?c = "c\<lparr>w_buf := bm_clear b, last_time_sent := clock 0, in_flight := in_flight c - 1,
    processed := processed c + 1\<rparr>"
  let ?sk = "snd (sock_write (bm_data b) sk)"
  have cnt: "counters_ok X (Suc (length ms)) c" using Cons.prems(3) by simp
  note cs = counters_step [OF cnt]
  have step: "write_message_loop X clock (m # ms) c sk =
      write_message_loop X (\<lambda>i. clock (Suc i)) ms ?c ?sk"
    using b(1) cs(1,2) by (simp add: write_tcp_eq)
  have "\<exists>c' sk'. write_message_loop X (\<lambda>i. clock (Suc i)) ms ?c ?sk = Inr (c', sk') \<and>
      (ms = [] \<or> bm_data (w_buf c') = [])"
    using Cons.prems b(2) cs(3) [where b = "bm_clear b" and t = "clock 0"]
    by (intro Cons.IH) simp_all
  then show ?case unfolding step by (cases ms) auto
qed simp

lemma write_message_loop_accepting:
  assumes X: "reserve_law X"
  shows "\<lbrakk>bm_wf (w_buf c); bm_data (w_buf c) = []; batch_ok ms; counters_ok X (length ms) c;
      s_wr sk = []\<rbrakk> \<Longrightarrow>
    \<exists>c'. write_message_loop X clock ms c sk =
        Inr (c', sk\<lparr>s_out := s_out sk @ concat (map (\<lambda>m. wire_cmd (RawCmd m)) ms)\<rparr>) \<and>
      bm_wf (w_buf c') \<and> bm_data (w_buf c') = [] \<and>
      in_flight c' = in_flight c - word_of_nat (length ms) \<and>
      processed c' = processed c + word_of_nat (length ms)"
proof (induction ms arbitrary: c sk clock)
  case Nil
  then show ?case by simp
next
  case (Cons m ms)
  from Cons.prems have m: "cmd_ok (RawCmd m)"
      "length (bm_data (w_buf c)) + length (wire_cmd (RawCmd m)) < 2 ^ 63"
    by (simp_all add: batch_ok_def)
  obtain b where b: "conn_write_cmd X (RawCmd m) c = Inr (c\<lparr>w_buf := b\<rparr>)" "bm_wf b"
      "bm_data b = bm_data (w_buf c) @ wire_cmd (RawCmd m)"
    by (rule conn_write_cmdE [OF X Cons.prems(1) m])
  let ?c = "c\<lparr>w_buf := bm_clear b, last_time_sent := clock 0, in_flight := in_flight c - 1,
    processed := processed c + 1\<rparr>"
  let ?sk = "sk\<lparr>s_out := s_out sk @ wire_cmd (RawCmd m)\<rparr>"
  have cnt: "counters_ok X (Suc (length ms)) c" using Cons.prems(4) by simp
  note cs = counters_step [OF cnt]
  have step: "write_message_loop X clock (m # ms) c sk =
      write_message_loop X (\<lambda>i. clock (Suc i)) ms ?c ?sk"
    using Cons.prems b cs by simp
  have "\<exists>c'. write_message_loop X (\<lambda>i. clock (Suc i)) ms ?c ?sk =
        Inr (c', ?sk\<lparr>s_out := s_out ?sk @ concat (map (\<lambda>m. wire_cmd (RawCmd m)) ms)\<rparr>) \<and>
      bm_wf (w_buf c') \<and> bm_data (w_buf c') = [] \<and>
      in_flight c' = in_flight ?c - word_of_nat (length ms) \<and>
      processed c' = processed ?c + word_of_nat (length ms)"
    using Cons.prems b(2) cs(3) [where b = "bm_clear b" and t = "clock 0"]
    by (intro Cons.IH) (simp_all add: batch_ok_def)
  then show ?case unfolding step by (auto simp: algebra_simps)
qed

lemma write_messages_accepting:
  assumes "reserve_law X" "bm_wf (w_buf c)" "bm_data (w_buf c) = []"
    and "batch_ok (conn_r c)" "counters_ok X (length (conn_r c)) c" "s_wr sk = []"
  obtains c' where "write_messages X clock c sk =
      Inr (c', sk\<lparr>s_out := s_out sk @ concat (map (\<lambda>m. wire_cmd (RawCmd m)) (conn_r c))\<rparr>)"
    "conn_r c' = []" "bm_wf (w_buf c')" "bm_data (w_buf c') = []"
    "in_flight c' = in_flight c - word_of_nat (length (conn_r c))"
    "processed c' = processed c + word_of_nat (length (conn_r c))"
    "heartbeat c' = heartbeat c" "conn_state c' = conn_state c" "conn_s c' = conn_s c"
proof -
  let ?c = "c\<lparr>conn_r := []\<rparr>"
  have "\<exists>c'. write_message_loop X clock (conn_r c) ?c sk =
      Inr (c', sk\<lparr>s_out := s_out sk @ concat (map (\<lambda>m. wire_cmd (RawCmd m)) (conn_r c))\<rparr>) \<and>
    bm_wf (w_buf c') \<and> bm_data (w_buf c') = [] \<and>
    in_flight c' = in_flight ?c - word_of_nat (length (conn_r c)) \<and>
    processed c' = processed ?c + word_of_nat (length (conn_r c))"
    using assms by (intro write_message_loop_accepting) (simp_all add: counters_ok_def)
  then obtain c' where c': "write_message_loop X clock (conn_r c) ?c sk =
      Inr (c', sk\<lparr>s_out := s_out sk @ concat (map (\<lambda>m. wire_cmd (RawCmd m)) (conn_r c))\<rparr>)"
      "bm_wf (w_buf c')" "bm_data (w_buf c') = []"
      "in_flight c' = in_flight c - word_of_nat (length (conn_r c))"
      "processed c' = processed c + word_of_nat (length (conn_r c))"
    by auto
  from write_message_loop_keeps [OF c'(1)] c' show ?thesis
    by (intro that [of c']) (simp_all add: write_messages_def)
qed

end
