(* ===== verification/Wire.thy ===== *)
theory Wire
  imports Conn_Write
begin

text \<open>
  The NSQ command grammar as the receiving side reads it, an abstract specification of the
  wire format that is independent of the writers: a line ended by a newline whose first word
  tells whether a body follows, a body being one length prefixed message or a counted list of
  them (\<open>parse_command\<close>). The lemmas show that the reference encoding \<open>wire_cmd\<close> of the
  commands inverts it.
\<close>

datatype body_kind = NoBody | OneBody | ManyBody

definition verb_kind :: "string \<Rightarrow> body_kind" where
  "verb_kind verb =
     (if verb \<in> {''IDENTIFY'', ''AUTH'', ''PUB'', ''DPUB''} then OneBody
      else if verb = ''MPUB'' then ManyBody else NoBody)"

definition verb_of :: "string \<Rightarrow> string" where
  "verb_of line = takeWhile (\<lambda>c. c \<noteq> CHR '' '') line"

text \<open>The text before the first newline and the bytes after it.\<close>

fun parse_line :: "bytes \<Rightarrow> (string \<times> bytes) option" where
  "parse_line [] = None"
| "parse_line (b # bs) =
     (if b = 0x0A then Some ([], bs)
      else map_option (\<lambda>(s, rest). (char_of (unat b) # s, rest)) (parse_line bs))"

definition parse_msg :: "bytes \<Rightarrow> (bytes \<times> bytes) option" where
  "parse_msg bs =
     (let n = be_val (take 4 bs); rest = drop 4 bs in
      if length bs < 4 \<or> length rest < n then None else Some (take n rest, drop n rest))"

fun parse_msgs :: "nat \<Rightarrow> bytes \<Rightarrow> (bytes list \<times> bytes) option" where
  "parse_msgs 0 bs = Some ([], bs)"
| "parse_msgs (Suc k) bs =
     Option.bind (parse_msg bs) (\<lambda>(m, rest).
     map_option (\<lambda>(ms, rest'). (m # ms, rest')) (parse_msgs k rest))"

text \<open>A counted list: total size of what follows, number of messages, the messages.\<close>

definition parse_mmsg :: "bytes \<Rightarrow> (bytes list \<times> bytes) option" where
  "parse_mmsg bs =
     Option.bind (parse_msg bs) (\<lambda>(body, rest).
     if length body < 4 then None
     else Option.bind (parse_msgs (be_val (take 4 body)) (drop 4 body)) (\<lambda>(ms, more).
       if more = [] then Some (ms, rest) else None))"

definition parse_command :: "bytes \<Rightarrow> (string \<times> bytes list \<times> bytes) option" where
  "parse_command bs =
     Option.bind (parse_line bs) (\<lambda>(line, rest).
     case verb_kind (verb_of line) of
       NoBody \<Rightarrow> Some (line, [], rest)
     | OneBody \<Rightarrow> map_option (\<lambda>(m, rest'). (line, [m], rest')) (parse_msg rest)
     | ManyBody \<Rightarrow> map_option (\<lambda>(ms, rest'). (line, ms, rest')) (parse_mmsg rest))"

section \<open>The parts\<close>

lemma of_char_newline [simp]: "(of_char c :: u8) = 0x0A \<longleftrightarrow> c = CHR 0x0A"
proof -
  have "(of_char (CHR 0x0A) :: u8) = 0x0A" by simp
  then show ?thesis by (metis of_char_word_inj)
qed

lemma parse_line_wire:
  "CHR 0x0A \<notin> set s \<Longrightarrow> parse_line (wire_line s @ rest) = Some (s, rest)"
  by (induction s) (auto simp: wire_line_def)

lemma parse_msg_wire:
  assumes "msg_ok m"
  shows "parse_msg (wire_msg m @ rest) = Some (m, rest)"
  using assms by (simp add: parse_msg_def wire_msg_def msg_ok_def be_val_be_bytes)

lemma parse_msgs_wire:
  "list_all msg_ok ms \<Longrightarrow>
     parse_msgs (length ms) (concat (map wire_msg ms) @ rest) = Some (ms, rest)"
  by (induction ms) (simp_all add: parse_msg_wire)

lemma parse_mmsg_wire:
  assumes "mmsg_ok ms"
  shows "parse_mmsg (wire_mmsg ms @ rest) = Some (ms, rest)"
proof -
  let ?items = "concat (map wire_msg ms)"
  have small: "length ms < 2 ^ 32" "4 + length ?items < 2 ^ 32"
    using assms length_wire_msgs [of ms] by (simp_all add: mmsg_ok_def)
  have outer: "parse_msg (wire_mmsg ms @ rest) = Some (be_bytes 4 (length ms) @ ?items, rest)"
    using parse_msg_wire [of "be_bytes 4 (length ms) @ ?items" rest] small(2)
    by (simp add: wire_mmsg_def wire_msg_def msg_ok_def)
  have "list_all msg_ok ms" using assms by (auto simp: list_all_iff intro: mmsg_ok_msg_ok)
  from parse_msgs_wire [OF this, of "[]"]
  have inner: "parse_msgs (length ms) ?items = Some (ms, [])" by simp
  have "be_val (be_bytes 4 (length ms)) = length ms"
    using small(1) by (simp add: be_val_be_bytes)
  with outer inner show ?thesis by (simp add: parse_mmsg_def)
qed

section \<open>Commands\<close>

text \<open>
  The commands for which the client produces the grammar's form: the typed commands whose
  arguments hold no newline, with at least two messages in an MPUB.
\<close>

fun well_formed_cmd :: "nsq_cmd \<Rightarrow> bool" where
  "well_formed_cmd (RawCmd c) = False"
| "well_formed_cmd (Mpub topic ms) = (CHR 0x0A \<notin> set topic \<and> 2 \<le> length ms)"
| "well_formed_cmd a = (CHR 0x0A \<notin> set (nsq_cmd_cmd a))"

lemma verb_simps [simp]:
  "verb_of [] = []"
  "verb_of (c # s) = (if c = CHR '' '' then [] else c # verb_of s)"
  by (simp_all add: verb_of_def)

lemma parse_command_wire:
  assumes wf: "well_formed_cmd a" and ok: "cmd_ok a"
  shows "parse_command (wire_cmd a @ rest) = Some (nsq_cmd_cmd a, nsq_cmd_msg a, rest)"
proof -
  have line: "parse_line (wire_line (nsq_cmd_cmd a) @ r) = Some (nsq_cmd_cmd a, r)" for r
    using wf by (intro parse_line_wire) (cases a, auto)
  show ?thesis
  proof (cases a)
    case (Mpub topic ms)
    with wf obtain m m' ms' where ms: "ms = m # m' # ms'"
      by (cases ms; cases "tl ms") auto
    with ok line Mpub show ?thesis
      by (simp add: parse_command_def wire_cmd_def cmd_ok_def verb_kind_def parse_mmsg_wire)
  qed (use wf ok line in \<open>simp_all add: parse_command_def wire_cmd_def cmd_ok_def
      verb_kind_def parse_msg_wire\<close>)
qed

text \<open>Reading a whole stream of commands; every command takes at least one byte.\<close>

fun parse_commands :: "nat \<Rightarrow> bytes \<Rightarrow> (string \<times> bytes list) list option" where
  "parse_commands fuel [] = Some []"
| "parse_commands 0 bs = None"
| "parse_commands (Suc fuel) bs =
     Option.bind (parse_command bs) (\<lambda>(line, ms, rest).
     map_option (\<lambda>cs. (line, ms) # cs) (parse_commands fuel rest))"

lemma wire_cmd_nonempty [simp]: "wire_cmd a \<noteq> []"
  by (simp add: wire_cmd_def wire_line_def)

lemma parse_commands_wire:
  assumes "length as \<le> fuel" "list_all well_formed_cmd as" "list_all cmd_ok as"
  shows "parse_commands fuel (concat (map wire_cmd as)) =
    Some (map (\<lambda>a. (nsq_cmd_cmd a, nsq_cmd_msg a)) as)"
  using assms
proof (induction as arbitrary: fuel)
  case Nil
  then show ?case by (cases fuel) simp_all
next
  case (Cons a as)
  then obtain k where k: "fuel = Suc k" "length as \<le> k" by (cases fuel) auto
  obtain b bs where ne: "wire_cmd a @ concat (map wire_cmd as) = b # bs"
    by (cases "wire_cmd a @ concat (map wire_cmd as)") auto
  with Cons k show ?case
    using parse_command_wire [of a "concat (map wire_cmd as)"] by (simp add: ne)
qed

text \<open>What the parser accepts as a counted list is the encoding of its result.\<close>

lemma parse_msg_inverse:
  assumes "parse_msg bs = Some (m, rest)"
  shows "length bs = 4 + length m + length rest \<and> be_val (take 4 bs) = length m"
  using assms by (auto simp: parse_msg_def Let_def split: if_splits)

lemma parse_msgs_length:
  "parse_msgs k bs = Some (ms, rest) \<Longrightarrow>
     length bs = length (concat (map wire_msg ms)) + length rest"
proof (induction k arbitrary: bs ms)
  case (Suc k)
  then show ?case
    by (fastforce simp: bind_eq_Some_conv split: prod.splits dest: parse_msg_inverse)
qed simp

end
