(* ===== verification/Conn_Read.thy ===== *)
theory Conn_Read
  imports Conn
begin

text \<open>
  What \<open>Conn\<close> makes of the bytes it reads: \<open>decode\<close> handles the frames of the read buffer
  in order (\<open>decode_frames\<close>), stops at an incomplete one (\<open>decode_stops\<close>), and changes the
  connection by what the frames say (\<open>frames_effect\<close>). \<open>step_loop\<close> is the contract of a
  loop whose body returns, panics, or asks for another round.
\<close>

section \<open>Loops over a step function\<close>

locale step_loop =
  fixes step :: "'s \<Rightarrow> panic + 's option"
    and loop :: "'s \<Rightarrow> panic + 's"
    and fuel :: "'s \<Rightarrow> nat"
  assumes loop_unfold:
      "loop s = (case step s of Inl p \<Rightarrow> Inl p | Inr None \<Rightarrow> Inr s | Inr (Some s') \<Rightarrow> loop s')"
    and step_fuel: "step s = Inr (Some s') \<Longrightarrow> fuel s' < fuel s"
begin

lemma loop_stop: "step s = Inr None \<Longrightarrow> loop s = Inr s"
  by (simp add: loop_unfold [of s])

lemma loop_again: "step s = Inr (Some s') \<Longrightarrow> loop s = loop s'"
  by (simp add: loop_unfold [of s])

lemma loop_panics: "step s = Inl p \<Longrightarrow> loop s = Inl p"
  by (simp add: loop_unfold [of s])

lemma loop_result:
  assumes keep: "\<And>s s'. P s \<Longrightarrow> step s = Inr (Some s') \<Longrightarrow> P s'"
  shows "P s \<Longrightarrow> loop s = Inr t \<Longrightarrow> P t \<and> step t = Inr None"
proof (induction s rule: measure_induct_rule [of fuel])
  case (less s)
  show ?case
  proof (cases "step s")
    case (Inl p)
    with less.prems(2) show ?thesis by (simp add: loop_panics)
  next
    case (Inr r)
    show ?thesis
    proof (cases r)
      case None
      with Inr less.prems show ?thesis by (simp add: loop_stop)
    next
      case (Some s')
      with Inr less.prems show ?thesis
        by (metis keep less.IH loop_again step_fuel)
    qed
  qed
qed

end

interpretation dec: step_loop "decode_step X sz" "decode X sz" "\<lambda>c. length (r_buf c)" for X sz
  by unfold_locales
    (simp_all add: decode.simps [of X sz] split: sum.split option.split,
      auto dest: decode_step_consumes)

text \<open>
  The loop with a bound on its rounds, \<open>None\<close> when they are used up. Every round takes the eight
  bytes of a header at least, so one round for every eight bytes and one more are enough.
\<close>

primrec decode_rounds :: "nat \<Rightarrow> ext \<Rightarrow> nat \<Rightarrow> conn \<Rightarrow> (panic + conn) option" where
  "decode_rounds 0 X sz c = None"
| "decode_rounds (Suc n) X sz c =
     (case decode_step X sz c of
        Inl p \<Rightarrow> Some (Inl p)
      | Inr None \<Rightarrow> Some (Inr c)
      | Inr (Some c') \<Rightarrow> decode_rounds n X sz c')"

lemma decode_rounds_enough:
  "length (r_buf c) div 8 < n \<Longrightarrow> decode_rounds n X sz c = Some (decode X sz c)"
proof (induction n arbitrary: c)
  case (Suc n)
  show ?case
  proof (cases "decode_step X sz c")
    case (Inl p)
    then show ?thesis by (simp add: dec.loop_panics)
  next
    case (Inr r)
    show ?thesis
    proof (cases r)
      case None
      with Inr show ?thesis by (simp add: dec.loop_stop)
    next
      case (Some c')
      with Inr have step: "decode_step X sz c = Inr (Some c')" by simp
      have "length (r_buf c') div 8 < n" using decode_step_consumes [OF step] Suc.prems by linarith
      from Suc.IH [OF this] step show ?thesis by (simp add: dec.loop_again)
    qed
  qed
qed simp

section \<open>Frames\<close>

type_synonym frame = "i32 \<times> bytes"

text \<open>The form of a frame on the wire: size of type and data, type, data.\<close>

definition enc_frame :: "frame \<Rightarrow> bytes" where
  "enc_frame f = be_bytes 4 (length (snd f) + 4) @ be_bytes 4 (unat (fst f)) @ snd f"

definition frame_fits :: "nat \<Rightarrow> frame \<Rightarrow> bool" where
  "frame_fits sz f \<longleftrightarrow> length (snd f) + 4 < 2 ^ 31 \<and> length (snd f) + 4 \<le> sz"

definition apply_frame :: "ext \<Rightarrow> frame \<Rightarrow> conn \<Rightarrow> panic + conn" where
  "apply_frame X f c = handle_frame X (fst f) (snd f) c"

text \<open>When a round of \<open>decode\<close> returns, depending on the buffer alone.\<close>

definition waits :: "nat \<Rightarrow> bytes \<Rightarrow> bool" where
  "waits sz b \<longleftrightarrow>
     b = [] \<or> sz < HEADER_LENGTH \<or> length b < HEADER_LENGTH \<or>
     sz < i32_as_usize (read_i32 (take 4 b)) \<or> length b < i32_as_usize (read_i32 (take 4 b))"

lemma decode_step_None_iff: "decode_step X sz c = Inr None \<longleftrightarrow> waits sz (r_buf c)"
  by (auto simp: decode_step_def waits_def Let_def rbind_Inr_iff split: prod.split)

lemma decode_stops: "waits sz (r_buf c) \<Longrightarrow> decode X sz c = Inr c"
  by (rule dec.loop_stop) (simp add: decode_step_None_iff)

lemma handle_frame_keeps:
  "handle_frame X ty p c = Inr c' \<Longrightarrow>
     r_buf c' = r_buf c \<and> w_buf c' = w_buf c \<and> conn_state c' = conn_state c \<and>
     conn_r c' = conn_r c \<and> conn_config c' = conn_config c \<and>
     need_response c' = need_response c \<and> msg_timeout c' = msg_timeout c \<and>
     s_info c' = s_info c \<and> processed c' = processed c"
  by (auto simp: handle_frame_def Let_def split: if_splits)

lemma split_to_suffix: "split_to X n b = Inr (front, rest) \<Longrightarrow> b = front @ rest"
  by (auto simp: split_to_def split: if_splits)

lemma decode_step_keeps:
  assumes "decode_step X sz c = Inr (Some c')"
  shows "(\<exists>used. r_buf c = used @ r_buf c') \<and> w_buf c' = w_buf c \<and>
    conn_state c' = conn_state c \<and> conn_r c' = conn_r c \<and> conn_config c' = conn_config c \<and>
    need_response c' = need_response c"
  using assms
  by (auto simp: decode_step_def Let_def split: if_splits
      dest!: handle_frame_keeps split_to_suffix)

lemma handle_frame_set_buf:
  "handle_frame X ty p (c\<lparr>r_buf := b\<rparr>) =
     rbind (handle_frame X ty p c) (\<lambda>c'. Inr (c'\<lparr>r_buf := b\<rparr>))"
  by (cases "from_utf8 p") (auto simp: handle_frame_def Let_def add_u32_def)

lemma read_type: "read_i32 (be_bytes 4 (unat ty)) = ty" for ty :: i32
proof -
  have "unat ty < 2 ^ 32" using unsigned_less [of ty] by simp
  then show ?thesis by (subst read_be_bytes) simp_all
qed

lemma decode_step_frame:
  assumes fits: "frame_fits sz f" and sz: "8 \<le> sz" and buf: "r_buf c = enc_frame f @ rest"
  shows "decode_step X sz c =
    rbind (apply_frame X f (c\<lparr>r_buf := rest\<rparr>)) (\<lambda>c'. Inr (Some c'))"
proof -
  obtain ty p where f: "f = (ty, p)" by (cases f)
  have small: "length p + 4 < 2 ^ 31" "length p + 4 \<le> sz"
    using fits by (simp_all add: frame_fits_def f)
  have buf': "r_buf c = be_bytes 4 (length p + 4) @ be_bytes 4 (unat ty) @ p @ rest"
    using buf by (simp add: enc_frame_def f)
  have size: "i32_as_usize (read_i32 (be_bytes 4 (length p + 4))) = length p + 4"
    using small(1) by (subst read_be_bytes) (simp_all only: i32_as_usize_nonneg, simp)
  have ne: "r_buf c \<noteq> []" using arg_cong [OF buf', of length] by auto
  show ?thesis
    using small(2) sz ne
    by (simp add: decode_step_def buf' size HEADER_LENGTH_def Let_def split_to_in_range
        sub_usize_def read_type apply_frame_def f)
qed

lemma decode_frames:
  assumes "8 \<le> sz" "waits sz rest"
  shows "\<lbrakk>list_all (frame_fits sz) fs; r_buf c = concat (map enc_frame fs) @ rest\<rbrakk> \<Longrightarrow>
    decode X sz c = for_each (apply_frame X) fs (c\<lparr>r_buf := rest\<rparr>)"
proof (induction fs arbitrary: c)
  case Nil
  then show ?case using assms(2) by (simp add: decode_stops)
next
  case (Cons f fs)
  let ?c = "c\<lparr>r_buf := concat (map enc_frame fs) @ rest\<rparr>"
  have step: "decode_step X sz c = rbind (apply_frame X f ?c) (\<lambda>c'. Inr (Some c'))"
    using Cons.prems assms(1) by (intro decode_step_frame) simp_all
  have set: "apply_frame X f (c\<lparr>r_buf := b\<rparr>) =
      rbind (apply_frame X f c) (\<lambda>c'. Inr (c'\<lparr>r_buf := b\<rparr>))" for b
    by (simp add: apply_frame_def handle_frame_set_buf)
  show ?case
  proof (cases "apply_frame X f c")
    case (Inl p)
    with step show ?thesis by (simp add: set dec.loop_panics)
  next
    case (Inr c1)
    with step have "decode X sz c = decode X sz (c1\<lparr>r_buf := concat (map enc_frame fs) @ rest\<rparr>)"
      by (intro dec.loop_again) (simp add: set)
    also have "\<dots> = for_each (apply_frame X) fs (c1\<lparr>r_buf := rest\<rparr>)"
      using Cons.prems(1) by (subst Cons.IH) simp_all
    finally show ?thesis using Inr by (simp add: set)
  qed
qed

section \<open>The effect of a list of frames\<close>

definition delivered :: "u64 \<Rightarrow> frame list \<Rightarrow> bytes_msg list" where
  "delivered t fs = map (\<lambda>f. BytesMsg t (snd f)) (filter (\<lambda>f. fst f = FRAME_TYPE_MESSAGE) fs)"

text \<open>The answer a frame carries, if it carries one.\<close>

definition answer_of :: "frame \<Rightarrow> response option" where
  "answer_of f =
     (if fst f = FRAME_TYPE_MESSAGE then None
      else case from_utf8 (snd f) of
          None \<Rightarrow> None
        | Some s \<Rightarrow>
            if s = HEARTBEAT then None
            else if fst f = FRAME_TYPE_RESPONSE then Some (Response s)
            else if fst f = FRAME_TYPE_ERROR then Some (RError s)
            else None)"

definition is_heartbeat :: "frame \<Rightarrow> bool" where
  "is_heartbeat f \<longleftrightarrow> fst f \<noteq> FRAME_TYPE_MESSAGE \<and> from_utf8 (snd f) = Some HEARTBEAT"

definition frames_effect :: "frame list \<Rightarrow> conn \<Rightarrow> conn" where
  "frames_effect fs c =
     c\<lparr>conn_s := conn_s c @ delivered (msg_timeout c) fs,
       responses := responses c @ List.map_filter answer_of fs,
       heartbeat := heartbeat c \<or> list_ex is_heartbeat fs,
       in_flight := in_flight c + word_of_nat (length (delivered (msg_timeout c) fs))\<rparr>"

text \<open>Text frames are UTF-8, and the message counter does not overflow a checked build.\<close>

definition frames_ok :: "ext \<Rightarrow> frame list \<Rightarrow> conn \<Rightarrow> bool" where
  "frames_ok X fs c \<longleftrightarrow>
     list_all (\<lambda>f. fst f = FRAME_TYPE_MESSAGE \<or> utf8_valid (snd f)) fs \<and>
     (overflow_checks X \<longrightarrow>
        unat (in_flight c) + length (delivered (msg_timeout c) fs) < 2 ^ 32)"

lemma delivered_simps [simp]:
  "delivered t [] = []"
  "delivered t (f # fs) =
     (if fst f = FRAME_TYPE_MESSAGE then BytesMsg t (snd f) # delivered t fs else delivered t fs)"
  by (simp_all add: delivered_def)

lemma for_each_frames_effect:
  "frames_ok X fs c \<Longrightarrow> for_each (apply_frame X) fs c = Inr (frames_effect fs c)"
proof (induction fs arbitrary: c)
  case Nil
  then show ?case by (simp add: frames_effect_def List.map_filter_def)
next
  case (Cons f fs)
  let ?c = "frames_effect [f] c"
  have one: "apply_frame X f c = Inr ?c"
  proof (cases "fst f = FRAME_TYPE_MESSAGE")
    case True
    with Cons.prems show ?thesis
      by (auto simp: apply_frame_def handle_frame_def frames_effect_def frames_ok_def
          List.map_filter_def answer_of_def is_heartbeat_def ch_send_def add_u32_def)
  next
    case False
    with Cons.prems obtain s where "from_utf8 (snd f) = Some s"
      by (auto simp: frames_ok_def from_utf8_def)
    with False show ?thesis
      by (auto simp: apply_frame_def handle_frame_def frames_effect_def
          List.map_filter_def answer_of_def is_heartbeat_def)
  qed
  have "frames_ok X fs ?c"
    using Cons.prems
    by (auto simp: frames_ok_def frames_effect_def unat_word_ariths)
  then have "for_each (apply_frame X) fs ?c = Inr (frames_effect fs ?c)" by (rule Cons.IH)
  moreover have "frames_effect fs ?c = frames_effect (f # fs) c"
    by (auto simp: frames_effect_def List.map_filter_def)
  ultimately show ?case using one by simp
qed

end
