(* ===== verification/Conn_Props.thy ===== *)
theory Conn_Props
  imports Wire Conn_Read
begin

text \<open>
  The properties of the codec and of the connection: what is written for each command, what
  is delivered for the bytes read, where decoding waits, stalls or panics, how the counters
  of messages in flight and of processed commands relate, and which address \<open>connect\<close> uses.
\<close>

section \<open>Concrete values for the witnesses\<close>

definition demo_ext :: ext where
  "demo_ext = std_ext True ''{}'' nsqd_config_default"

definition demo_conn :: conn where
  "demo_conn = conn_new demo_ext (config_default None) [] [] [] 0"

definition demo_frames :: "frame list" where
  "demo_frames = [(0, as_bytes ''OK''), (2, [1, 2, 3]), (0, as_bytes HEARTBEAT)]"

definition demo_sock :: "rd_outcome list \<Rightarrow> sock" where
  "demo_sock rs = \<lparr>s_in = rs, s_wr = [], s_out = []\<rparr>"

lemma demo_laws [simp]: "reserve_law demo_ext" "split_law demo_ext" "overflow_checks demo_ext"
    "x_set_readiness demo_ext n"
  by (simp_all add: demo_ext_def)

lemma demo_conn_fields [simp]:
  "r_buf demo_conn = []" "bm_wf (w_buf demo_conn)" "bm_data (w_buf demo_conn) = []"
  "in_flight demo_conn = 0" "processed demo_conn = 0" "conn_r demo_conn = []"
  "responses demo_conn = []" "msg_timeout demo_conn = 0"
  "output_buffer_size (conn_config demo_conn) = 16384"
  by (simp_all add: demo_conn_def conn_new_def config_default_def)

lemma demo_frames_ok: "frames_ok demo_ext demo_frames demo_conn"
  by (simp add: frames_ok_def demo_frames_def HEARTBEAT_def codec_consts utf8_ranges_def)

section \<open>Reading\<close>

text \<open>What \<open>read_tcp\<close> does with the bytes of one successful read.\<close>

definition feed :: "ext \<Rightarrow> bytes \<Rightarrow> conn \<Rightarrow> panic + conn" where
  "feed X bs c = decode X (length bs) (c\<lparr>r_buf := r_buf c @ bs\<rparr>)"

lemma read_tcp_feed:
  assumes "sock_read (unat (output_buffer_size (conn_config c))) sk = (Inr bs, sk')" "bs \<noteq> []"
  shows "read_tcp X c sk = rbind (feed X bs c) (\<lambda>c'. Inr (Inr (length bs), c', sk'))"
  using assms by (simp add: read_tcp_def feed_def)

lemma feed_frames:
  assumes "r_buf c @ bs = concat (map enc_frame fs) @ rest"
    and "list_all (frame_fits (length bs)) fs" "8 \<le> length bs" "waits (length bs) rest"
    and "frames_ok X fs c"
  shows "feed X bs c = Inr (frames_effect fs (c\<lparr>r_buf := rest\<rparr>))"
proof -
  have ok: "frames_ok X fs (c\<lparr>r_buf := rest\<rparr>)" using assms(5) by (simp add: frames_ok_def)
  have "feed X bs c = for_each (apply_frame X) fs (c\<lparr>r_buf := rest\<rparr>)"
    using assms(1-4) by (simp add: feed_def decode_frames)
  with for_each_frames_effect [OF ok] show ?thesis by simp
qed

text \<open>
  C13: one read delivers every frame it completes, in order. If the bytes kept from earlier
  reads and the bytes of this read form the frames \<open>fs\<close> followed by an incomplete rest, and
  every frame is no longer than this read, then \<open>read_tcp\<close> hands all messages to the
  readers, queues all responses and errors, records a heartbeat, counts the messages in
  flight and keeps exactly the rest for the next read.
\<close>

theorem read_delivers_frames:
  assumes "sock_read (unat (output_buffer_size (conn_config c))) sk = (Inr bs, sk')"
    and "r_buf c @ bs = concat (map enc_frame fs) @ rest"
    and "list_all (frame_fits (length bs)) fs" "8 \<le> length bs" "waits (length bs) rest"
    and "frames_ok X fs c"
  shows "read_tcp X c sk =
    Inr (Inr (length bs), frames_effect fs (c\<lparr>r_buf := rest\<rparr>), sk')"
proof -
  have "bs \<noteq> []" using assms(4) by auto
  then show ?thesis using assms by (simp add: read_tcp_feed feed_frames)
qed

theorem read_delivers_frames_witness:
  "let bs = concat (map enc_frame demo_frames) @ [0, 0] in
   read_tcp demo_ext demo_conn (demo_sock [RdData bs]) =
     Inr (Inr (length bs), frames_effect demo_frames (demo_conn\<lparr>r_buf := [0, 0]\<rparr>),
          demo_sock [])"
  unfolding Let_def
proof (rule read_delivers_frames)
  let ?bs = "concat (map enc_frame demo_frames) @ [0, 0]"
  show "sock_read (unat (output_buffer_size (conn_config demo_conn))) (demo_sock [RdData ?bs]) =
      (Inr ?bs, demo_sock [])"
    by (simp add: sock_read_def demo_sock_def demo_frames_def enc_frame_def HEARTBEAT_def)
  show "list_all (frame_fits (length ?bs)) demo_frames" "8 \<le> length ?bs"
    by (simp_all add: demo_frames_def frame_fits_def enc_frame_def HEARTBEAT_def)
  show "waits (length ?bs) [0, 0]" by (simp add: waits_def HEADER_LENGTH_def)
  show "frames_ok demo_ext demo_frames demo_conn" by (rule demo_frames_ok)
qed simp

text \<open>
  C14: how frames are grouped into reads does not matter as long as reads end at frame
  boundaries: feeding any grouping of the frames has the effect of all frames in order.
\<close>

theorem feed_groups:
  assumes "r_buf c = []" "list_all (\<lambda>g. g \<noteq> []) groups"
    and "list_all (\<lambda>f. length (snd f) + 4 < 2 ^ 31) (concat groups)"
    and "frames_ok X (concat groups) c"
  shows "for_each (feed X) (map (\<lambda>g. concat (map enc_frame g)) groups) c =
    Inr (frames_effect (concat groups) c)"
  using assms
proof (induction groups arbitrary: c)
  case Nil
  then show ?case by (simp add: frames_effect_def List.map_filter_def)
next
  case (Cons g groups)
  let ?bs = "concat (map enc_frame g)"
  have len: "f \<in> set g \<Longrightarrow> length (snd f) + 8 \<le> length ?bs" for f
    by (induction g) (auto simp: enc_frame_def)
  from Cons.prems(2) obtain f0 where "f0 \<in> set g" by (cases g) auto
  with len have eight: "8 \<le> length ?bs" by fastforce
  have fits: "list_all (frame_fits (length ?bs)) g"
    using Cons.prems(3) len by (fastforce simp: list_all_iff frame_fits_def)
  have ok: "frames_ok X g c" "frames_ok X (concat groups) (frames_effect g c)"
    using Cons.prems(4)
    by (auto simp: frames_ok_def frames_effect_def delivered_def unat_word_ariths unat_of_nat)
  have c: "c\<lparr>r_buf := []\<rparr> = c" using Cons.prems(1) by simp
  have "feed X ?bs c = Inr (frames_effect g (c\<lparr>r_buf := []\<rparr>))"
    by (rule feed_frames) (use Cons.prems(1) fits eight ok in \<open>simp_all add: waits_def\<close>)
  then have "feed X ?bs c = Inr (frames_effect g c)" by (simp only: c)
  moreover have "frames_effect (concat groups) (frames_effect g c) =
      frames_effect (concat (g # groups)) c"
    by (simp add: frames_effect_def delivered_def List.map_filter_def add.assoc disj_assoc)
  moreover have "r_buf (frames_effect g c) = []"
    using Cons.prems(1) by (simp add: frames_effect_def)
  ultimately show ?case using Cons.prems ok(2) by (simp add: Cons.IH)
qed

theorem feed_groups_witness:
  "for_each (feed demo_ext) (map (\<lambda>g. concat (map enc_frame g)) [demo_frames, demo_frames])
     demo_conn = Inr (frames_effect (concat [demo_frames, demo_frames]) demo_conn)"
  by (rule feed_groups)
    (simp_all add: demo_frames_def frames_ok_def HEARTBEAT_def codec_consts utf8_ranges_def)

text \<open>
  C28: decoding always ends. One round of the loop for every eight bytes of the buffer and one
  more are enough for \<open>decode\<close> to return or to panic; and when it returns, what it keeps is the
  end of the buffer, on which it waits: there is nothing left, the last read or what is left is
  shorter than a header, or the size field of what is left exceeds the last read or the length
  of what is left. The write buffer, the handshake state and the queue of commands are untouched.
\<close>

theorem decode_result:
  "decode_rounds (Suc (length (r_buf c) div 8)) X sz c = Some (decode X sz c) \<and>
   (\<forall>c'. decode X sz c = Inr c' \<longrightarrow>
      (\<exists>used. r_buf c = used @ r_buf c') \<and>
      (r_buf c' = [] \<or> sz < 8 \<or> length (r_buf c') < 8 \<or>
       min sz (length (r_buf c')) < i32_as_usize (read_i32 (take 4 (r_buf c')))) \<and>
      w_buf c' = w_buf c \<and> conn_state c' = conn_state c \<and> conn_r c' = conn_r c \<and>
      conn_config c' = conn_config c \<and> need_response c' = need_response c)"
proof (intro conjI allI impI)
  show "decode_rounds (Suc (length (r_buf c) div 8)) X sz c = Some (decode X sz c)"
    by (rule decode_rounds_enough) simp
next
  fix c' assume r: "decode X sz c = Inr c'"
  define P where "P d \<longleftrightarrow> (\<exists>used. r_buf c = used @ r_buf d) \<and>
    w_buf d = w_buf c \<and> conn_state d = conn_state c \<and> conn_r d = conn_r c \<and>
    conn_config d = conn_config c \<and> need_response d = need_response c" for d :: conn
  have "P c" by (simp add: P_def)
  moreover have "P e" if d: "P d" and step: "decode_step X sz d = Inr (Some e)" for d e
    using d decode_step_keeps [OF step] by (auto simp: P_def)
  ultimately have "P c' \<and> decode_step X sz c' = Inr None"
    using r by (intro dec.loop_result [of P]) auto
  then show "\<exists>used. r_buf c = used @ r_buf c'"
      "r_buf c' = [] \<or> sz < 8 \<or> length (r_buf c') < 8 \<or>
       min sz (length (r_buf c')) < i32_as_usize (read_i32 (take 4 (r_buf c')))"
      "w_buf c' = w_buf c" "conn_state c' = conn_state c" "conn_r c' = conn_r c"
      "conn_config c' = conn_config c" "need_response c' = need_response c"
    by (auto simp: P_def decode_step_None_iff waits_def HEADER_LENGTH_def)
qed

text \<open>A message is taken off the buffer and the beginning of a size field is kept; two rounds.\<close>

theorem decode_result_witness:
  "\<exists>c'. decode_rounds 2 demo_ext 13 (demo_conn\<lparr>r_buf := enc_frame (2, [1, 2, 3]) @ [0, 0]\<rparr>) = Some (Inr c') \<and>
     r_buf c' = [0, 0] \<and> conn_s c' = [BytesMsg 0 [1, 2, 3]] \<and> w_buf c' = w_buf demo_conn"
proof -
  let ?f = "(2, [1, 2, 3]) :: frame"
  let ?c = "demo_conn\<lparr>r_buf := enc_frame ?f @ [0, 0]\<rparr>" and ?c' = "frames_effect [?f] (demo_conn\<lparr>r_buf := [0, 0]\<rparr>)"
  have len: "length (r_buf ?c) = 13" by (simp add: enc_frame_def)
  have "feed demo_ext (enc_frame ?f @ [0, 0]) demo_conn = Inr ?c'"
    by (rule feed_frames) (simp_all add: frame_fits_def enc_frame_def waits_def HEADER_LENGTH_def
        frames_ok_def codec_consts)
  then have dec: "decode demo_ext 13 ?c = Inr ?c'" using len by (simp add: feed_def)
  have "conn_s ?c' = [BytesMsg 0 [1, 2, 3]]"
    by (simp add: frames_effect_def codec_consts) (simp add: demo_conn_def conn_new_def)
  moreover have "r_buf ?c' = [0, 0]" by (simp add: frames_effect_def)
  moreover have "Suc (length (r_buf ?c) div 8) = 2" unfolding len by simp
  then have "decode_rounds 2 demo_ext 13 ?c = Some (Inr ?c') \<and> w_buf ?c' = w_buf demo_conn"
    using decode_result [of ?c demo_ext 13] dec by (simp only: sum.inject) simp
  ultimately show ?thesis by blast
qed

text \<open>
  C31: a frame larger than every read is never decoded. \<open>decode\<close> compares the frame size
  with the number of bytes of the last read, not with what the buffer holds, so as long as
  every read is shorter than the size field of the frame at the front of the stream, the
  buffer only grows: nothing is delivered, answered or consumed, also after the whole frame
  has arrived. A negative size field, which the cast to \<open>usize\<close> turns into a huge one, has
  this effect on every stream.
\<close>

theorem oversized_frame_stalls:
  assumes "\<forall>bs \<in> set chunks.
    length bs < i32_as_usize (read_i32 (take 4 (r_buf c @ concat chunks)))"
  shows "for_each (feed X) chunks c = Inr (c\<lparr>r_buf := r_buf c @ concat chunks\<rparr>)"
  using assms
proof (induction chunks arbitrary: c)
  case Nil
  then show ?case by simp
next
  case (Cons bs chunks)
  let ?b = "r_buf c @ bs"
  have "waits (length bs) ?b"
  proof (cases "length ?b < HEADER_LENGTH")
    case False
    then have "take 4 (r_buf c @ concat (bs # chunks)) = take 4 ?b"
      by (simp add: HEADER_LENGTH_def)
    with Cons.prems [rule_format, of bs]
    have "length bs < i32_as_usize (read_i32 (take 4 ?b))"
      by (simp del: take_append)
    then show ?thesis by (simp only: waits_def) blast
  qed (simp add: waits_def)
  then have "feed X bs c = Inr (c\<lparr>r_buf := ?b\<rparr>)" by (simp add: feed_def decode_stops)
  with Cons show ?case by simp
qed

text \<open>A frame of 100 bytes that arrives in two halves of 54 bytes.\<close>

theorem oversized_frame_stalls_witness:
  "for_each (feed demo_ext) [be_bytes 4 104 @ replicate 50 0, replicate 54 0] demo_conn =
     Inr (demo_conn\<lparr>r_buf := be_bytes 4 104 @ replicate 104 0\<rparr>)"
proof -
  have "for_each (feed demo_ext) [be_bytes 4 104 @ replicate 50 0, replicate 54 0] demo_conn =
      Inr (demo_conn\<lparr>r_buf := r_buf demo_conn @
        concat [be_bytes 4 104 @ replicate 50 0, replicate 54 0]\<rparr>)"
    by (rule oversized_frame_stalls)
      (simp add: read_be_bytes i32_as_usize_nonneg [of 104, simplified])
  moreover have "replicate 50 (0 :: u8) @ replicate 54 0 = replicate 104 0"
    by (simp flip: replicate_add)
  ultimately show ?thesis by simp
qed

text \<open>The bytes a stream has still to deliver.\<close>

fun rd_data :: "rd_outcome list \<Rightarrow> bytes" where
  "rd_data [] = []"
| "rd_data (RdData bs # rs) = bs @ rd_data rs"
| "rd_data (_ # rs) = rd_data rs"

fun read_times :: "ext \<Rightarrow> nat \<Rightarrow> conn \<Rightarrow> sock \<Rightarrow> panic + conn \<times> sock" where
  "read_times X 0 c sk = Inr (c, sk)"
| "read_times X (Suc n) c sk =
     rbind (read_tcp X c sk) (\<lambda>(_, c', sk'). read_times X n c' sk')"

lemma sock_read_data:
  assumes "sock_read n sk = (r, sk')"
  shows "(case r of Inr bs \<Rightarrow> bs | Inl e \<Rightarrow> []) @ rd_data (s_in sk') = rd_data (s_in sk)"
  using assms by (cases "(n, s_in sk)" rule: read_outcome.cases) (auto simp: sock_read_def)

text \<open>
  A message longer than the configured \<open>output_buffer_size\<close> never reaches a reader. The
  size is used for the client's own read buffer, so no read returns more bytes; whatever the
  network does and however often the client reads, such a frame at the front of the stream
  leaves the connection as it is except for the growing buffer.
\<close>

lemma frame_beyond_read_buffer_never_delivered:
  assumes "unat (output_buffer_size (conn_config c)) <
    i32_as_usize (read_i32 (take 4 (r_buf c @ rd_data (s_in sk))))"
  shows "\<exists>b sk'. read_times X n c sk = Inr (c\<lparr>r_buf := b\<rparr>, sk') \<and>
    b @ rd_data (s_in sk') = r_buf c @ rd_data (s_in sk)"
  using assms
proof (induction n arbitrary: c sk)
  case 0
  show ?case by (intro exI [of _ "r_buf c"] exI [of _ sk]) simp
next
  case (Suc n)
  let ?k = "unat (output_buffer_size (conn_config c))"
  obtain r sk1 where rd: "sock_read ?k sk = (r, sk1)" by fastforce
  define bs where "bs = (case r of Inr bs \<Rightarrow> bs | Inl e \<Rightarrow> [])"
  have data: "bs @ rd_data (s_in sk1) = rd_data (s_in sk)"
    unfolding bs_def using rd by (rule sock_read_data)
  have "length bs \<le> ?k"
    using sock_read_length [of ?k sk] rd by (cases r) (auto simp: bs_def)
  with Suc.prems have "length bs < i32_as_usize (read_i32 (take 4 (r_buf c @ bs)))"
    if "\<not> length (r_buf c @ bs) < HEADER_LENGTH"
    using that by (simp add: HEADER_LENGTH_def data [symmetric])
  then have "waits (length bs) (r_buf c @ bs)" by (auto simp: waits_def)
  then have feed: "feed X bs c = Inr (c\<lparr>r_buf := r_buf c @ bs\<rparr>)"
    by (simp add: feed_def decode_stops)
  then have step: "\<exists>io. read_tcp X c sk = Inr (io, c\<lparr>r_buf := r_buf c @ bs\<rparr>, sk1)"
  proof (cases r)
    case (Inl e)
    with rd show ?thesis by (simp add: read_tcp_def bs_def)
  next
    case (Inr bs')
    with rd feed show ?thesis
      by (cases "bs' = []") (simp add: read_tcp_def bs_def, simp add: read_tcp_feed bs_def)
  qed
  let ?c1 = "c\<lparr>r_buf := r_buf c @ bs\<rparr>"
  have "\<exists>b sk'. read_times X n ?c1 sk1 = Inr (?c1\<lparr>r_buf := b\<rparr>, sk') \<and>
      b @ rd_data (s_in sk') = r_buf ?c1 @ rd_data (s_in sk1)"
    using Suc.prems by (intro Suc.IH) (simp add: data)
  with step data show ?case by auto
qed

lemma frame_beyond_read_buffer_never_delivered_example:
  "\<exists>b sk'. read_times demo_ext 9 demo_conn (demo_sock [RdData (be_bytes 4 20004 @ replicate 20004 0)]) =
       Inr (demo_conn\<lparr>r_buf := b\<rparr>, sk') \<and>
     b @ rd_data (s_in sk') = be_bytes 4 20004 @ replicate 20004 0"
proof -
  let ?sk = "demo_sock [RdData (be_bytes 4 20004 @ replicate 20004 0)]"
  have "unat (output_buffer_size (conn_config demo_conn)) <
      i32_as_usize (read_i32 (take 4 (r_buf demo_conn @ rd_data (s_in ?sk))))"
    by (simp add: demo_sock_def read_be_bytes i32_as_usize_nonneg [of 20004, simplified])
  from frame_beyond_read_buffer_never_delivered [OF this, of demo_ext 9]
  show ?thesis by (simp add: demo_sock_def)
qed

text \<open>
  C32: a frame whose last bytes (one to four of them) are still missing makes the client
  panic instead of waiting. The size field counts type and data but not itself, and the
  guard before the split asks only for as many buffered bytes as the field says, so the
  final \<open>split_to\<close> lies up to four bytes beyond the buffer.
\<close>

theorem nearly_complete_frame_panics:
  assumes "split_law X" "4 \<le> n" "n < 2 ^ 31"
    and "take 4 (r_buf c) = be_bytes 4 n"
    and "8 \<le> sz" "n \<le> sz" "8 \<le> length (r_buf c)"
    and "n \<le> length (r_buf c)" "length (r_buf c) < n + 4"
  shows "decode X sz c = Inl SplitOutOfBounds"
proof -
  have size: "i32_as_usize (read_i32 (be_bytes 4 n)) = n"
    using assms(3) by (simp add: read_be_bytes i32_as_usize_nonneg)
  have ne: "r_buf c \<noteq> []" using assms(7) by auto
  have "length (drop 8 (r_buf c)) < n - 4" using assms by simp
  then have "split_to X (n - 4) (drop 8 (r_buf c)) = Inl SplitOutOfBounds"
    by (rule split_to_beyond [OF assms(1)])
  then have "decode_step X sz c = Inl SplitOutOfBounds"
    using assms ne
    by (simp add: decode_step_def size HEADER_LENGTH_def Let_def split_to_in_range sub_usize_def)
  then show ?thesis by (rule dec.loop_panics)
qed

text \<open>The frame \<open>OK\<close> without its last byte.\<close>

theorem nearly_complete_frame_panics_witness:
  "decode demo_ext 9 (demo_conn\<lparr>r_buf := be_bytes 4 6 @ be_bytes 4 0 @ [79]\<rparr>) =
     Inl SplitOutOfBounds"
  by (rule nearly_complete_frame_panics [where n = 6]) simp_all

section \<open>Writing\<close>

text \<open>
  C16: \<open>Conn::write_cmd\<close> appends exactly the wire form of its command to the write buffer,
  changes nothing else and does not panic: the space \<open>check_and_reserve\<close> asks for suffices
  for every later \<open>put_*\<close>. The hypotheses are the documented behaviour of \<open>reserve\<close>, a
  consistent buffer, bodies below the 32 bit length fields, and a buffer within the address
  space.
\<close>

theorem write_cmd_on_wire:
  assumes "reserve_law X" "bm_wf (w_buf c)" "cmd_ok a"
    and "length (bm_data (w_buf c)) + length (wire_cmd a) < 2 ^ 63"
  shows "\<exists>b. conn_write_cmd X a c = Inr (c\<lparr>w_buf := b\<rparr>) \<and> bm_wf b \<and>
    bm_data b = bm_data (w_buf c) @ wire_cmd a"
proof -
  obtain b where "conn_write_cmd X a c = Inr (c\<lparr>w_buf := b\<rparr>)" "bm_wf b"
      "bm_data b = bm_data (w_buf c) @ wire_cmd a"
    by (rule conn_write_cmdE [OF assms])
  then show ?thesis by blast
qed

theorem write_cmd_on_wire_witness:
  "\<exists>b. conn_write_cmd demo_ext (Pub ''t'' [1, 2]) demo_conn = Inr (demo_conn\<lparr>w_buf := b\<rparr>) \<and>
     bm_wf b \<and> bm_data b = as_bytes ''PUB t'' @ [10, 0, 0, 0, 2, 1, 2]"
proof -
  have "wire_cmd (Pub ''t'' [1, 2]) = as_bytes ''PUB t'' @ [10, 0, 0, 0, 2, 1, 2]"
    by (simp add: wire_cmd_def wire_line_def wire_msg_def be_bytes_4)
  with write_cmd_on_wire [of demo_ext demo_conn "Pub ''t'' [1, 2]"] show ?thesis
    by (simp add: cmd_ok_def msg_ok_def)
qed

lemma for_each_conn_write_cmd:
  "for_each (conn_write_cmd X) as c =
     rbind (for_each (write_command X) as (w_buf c)) (\<lambda>b. Inr (c\<lparr>w_buf := b\<rparr>))"
  by (induction as arbitrary: c) (simp_all add: conn_write_cmd_eq rbind_assoc)

text \<open>
  C15: what the client writes is what the NSQ grammar reads: after writing any list of typed
  commands (whose arguments hold no newline, and with at least two messages per MPUB) into
  an empty buffer, parsing the buffer gives back exactly those command lines and bodies, in
  order.
\<close>

theorem written_commands_parse_back:
  assumes "reserve_law X" "bm_wf (w_buf c)" "bm_data (w_buf c) = []"
    and "list_all well_formed_cmd as" "list_all cmd_ok as"
    and "length (concat (map wire_cmd as)) < 2 ^ 63"
  shows "\<exists>c'. for_each (conn_write_cmd X) as c = Inr c' \<and>
    parse_commands (length as) (bm_data (w_buf c')) =
      Some (map (\<lambda>a. (nsq_cmd_cmd a, nsq_cmd_msg a)) as)"
proof -
  from assms have "\<exists>b. for_each (write_command X) as (w_buf c) = Inr b \<and> bm_wf b \<and>
      bm_data b = bm_data (w_buf c) @ concat (map wire_cmd as)"
    by (intro command_writer.for_each_appends) (simp_all add: list_all_iff)
  then obtain b where "for_each (write_command X) as (w_buf c) = Inr b"
      "bm_data b = concat (map wire_cmd as)"
    using assms(3) by auto
  then show ?thesis
    using parse_commands_wire [OF order_refl assms(4,5)] by (simp add: for_each_conn_write_cmd)
qed

theorem written_commands_parse_back_witness:
  "\<exists>c'. for_each (conn_write_cmd demo_ext) [Subscribe ''t'' ''c'', Mpub ''t'' [[1], [2, 3]]]
        demo_conn = Inr c' \<and>
     parse_commands (Suc (Suc 0)) (bm_data (w_buf c')) =
       Some [(''SUB t c'', []), (''MPUB t'', [[1], [2, 3]])]"
  using written_commands_parse_back [of demo_ext demo_conn
      "[Subscribe ''t'' ''c'', Mpub ''t'' [[1], [2, 3]]]"]
  by (simp add: cmd_ok_def mmsg_ok_def wire_cmd_def wire_line_def wire_mmsg_def)

text \<open>The bytes of a PUB body are never the body of an MPUB with the same message.\<close>

lemma single_message_not_parsed:
  assumes "CHR 0x0A \<notin> set topic"
  shows "parse_command (wire_cmd (Mpub topic [m])) \<noteq> Some (''MPUB '' @ topic, [m], [])"
proof
  assume parsed: "parse_command (wire_cmd (Mpub topic [m])) = Some (''MPUB '' @ topic, [m], [])"
  have "parse_line (wire_cmd (Mpub topic [m])) = Some (''MPUB '' @ topic, wire_msg m)"
    using parse_line_wire [of "nsq_cmd_cmd (Mpub topic [m])" "wire_msg m"] assms
    by (simp add: wire_cmd_def)
  with parsed have "parse_mmsg (wire_msg m) = Some ([m], [])"
    by (simp add: parse_command_def verb_kind_def)
  then obtain body rest more where
      body: "parse_msg (wire_msg m) = Some (body, rest)" "4 \<le> length body"
    and items: "parse_msgs (be_val (take 4 body)) (drop 4 body) = Some ([m], more)"
    by (auto simp: parse_mmsg_def bind_eq_Some_conv split: if_splits)
  from parse_msg_inverse [OF body(1)] parse_msgs_length [OF items] body(2)
  show False by simp
qed

text \<open>
  C39: an MPUB with a single message is not written as an MPUB. \<open>write_cmd\<close> chooses the format of
  the body by the number of messages, so what follows the command line is the size and the bytes
  of the one message, without the total size and the message count; and the grammar of the
  protocol never reads the written bytes as an MPUB of that message. The hypotheses are those
  under which a command is written at all, to an empty buffer, and a topic without a line feed.
\<close>

theorem single_message_mpub_malformed:
  assumes "reserve_law X" "bm_wf (w_buf c)" "bm_data (w_buf c) = []" "msg_ok m"
    and "length topic + length m + 10 < 2 ^ 63" "CHR 0x0A \<notin> set topic"
  shows "\<exists>b. conn_write_cmd X (Mpub topic [m]) c = Inr (c\<lparr>w_buf := b\<rparr>) \<and>
    bm_data b = as_bytes (''MPUB '' @ topic) @ [10] @ be_bytes 4 (length m) @ m \<and>
    parse_command (bm_data b) \<noteq> Some (''MPUB '' @ topic, [m], [])"
proof -
  let ?a = "Mpub topic [m]"
  have wire: "wire_cmd ?a = as_bytes (''MPUB '' @ topic) @ [10] @ be_bytes 4 (length m) @ m"
    by (simp add: wire_cmd_def wire_line_def wire_msg_def)
  have "cmd_ok ?a" using assms(4) by (simp add: cmd_ok_def)
  moreover have "length (bm_data (w_buf c)) + length (wire_cmd ?a) < 2 ^ 63"
    using assms(3,5) by (simp add: wire)
  ultimately obtain b where b: "conn_write_cmd X ?a c = Inr (c\<lparr>w_buf := b\<rparr>)" "bm_data b = wire_cmd ?a"
    using conn_write_cmdE [OF assms(1,2)] assms(3) by (metis append_Nil)
  have "parse_command (wire_cmd ?a) \<noteq> Some (''MPUB '' @ topic, [m], [])"
    by (rule single_message_not_parsed [OF assms(6)])
  with b wire show ?thesis by metis
qed

theorem single_message_mpub_malformed_witness:
  "\<exists>b. conn_write_cmd demo_ext (Mpub ''t'' [[7]]) demo_conn = Inr (demo_conn\<lparr>w_buf := b\<rparr>) \<and>
     bm_data b = as_bytes ''MPUB t'' @ [10, 0, 0, 0, 1, 7] \<and>
     parse_command (bm_data b) \<noteq> Some (''MPUB t'', [[7]], [])"
  using single_message_mpub_malformed [of demo_ext demo_conn "[7]" "''t''"]
  by (auto simp: msg_ok_def be_bytes_4)

text \<open>
  A short or failed write loses data. One \<open>write\<close> is made; whatever prefix of the buffer
  the socket accepts reaches the peer, the buffer is emptied, and the rest is neither kept
  nor reported unless the write failed as a whole.
\<close>

lemma write_tcp_drops_rest:
  "\<exists>k \<le> length (bm_data (w_buf c)). case write_tcp c sk of (res, c', sk') \<Rightarrow>
     s_out sk' = s_out sk @ take k (bm_data (w_buf c)) \<and>
     bm_data (w_buf c') = [] \<and> (case res of Inr n \<Rightarrow> n = k | Inl e \<Rightarrow> k = 0)"
proof -
  obtain res sk' where w: "sock_write (bm_data (w_buf c)) sk = (res, sk')" by fastforce
  from sock_write_prefix [OF w] show ?thesis by (simp add: write_tcp_eq w)
qed

text \<open>
  C11: \<open>write_messages\<close> empties the command queue and, on a socket that accepts all bytes,
  sends the wire forms of all waiting commands in the order they were queued, moving each
  from the messages in flight to the processed ones.
\<close>

lemma write_messages_in_order:
  assumes "reserve_law X" "bm_wf (w_buf c)" "bm_data (w_buf c) = []"
    and "batch_ok (conn_r c)" "counters_ok X (length (conn_r c)) c" "s_wr sk = []"
  shows "\<exists>c'. write_messages X clock c sk =
      Inr (c', sk\<lparr>s_out := s_out sk @ concat (map (\<lambda>m. wire_cmd (RawCmd m)) (conn_r c))\<rparr>) \<and>
    conn_r c' = [] \<and> bm_data (w_buf c') = [] \<and>
    in_flight c' = in_flight c - word_of_nat (length (conn_r c)) \<and>
    processed c' = processed c + word_of_nat (length (conn_r c))"
proof -
  obtain c' where "write_messages X clock c sk =
      Inr (c', sk\<lparr>s_out := s_out sk @ concat (map (\<lambda>m. wire_cmd (RawCmd m)) (conn_r c))\<rparr>)"
      "conn_r c' = []" "bm_data (w_buf c') = []"
      "in_flight c' = in_flight c - word_of_nat (length (conn_r c))"
      "processed c' = processed c + word_of_nat (length (conn_r c))"
    by (rule write_messages_accepting [OF assms])
  then show ?thesis by blast
qed

lemma write_messages_in_order_example:
  "\<exists>c'. write_messages demo_ext (\<lambda>i. 0)
        (demo_conn\<lparr>conn_r := [as_cmd (Fin ''a''), as_cmd Nop], in_flight := 2\<rparr>) (demo_sock []) =
      Inr (c', (demo_sock [])\<lparr>s_out := as_bytes ''FIN a'' @ [10] @ as_bytes ''NOP'' @ [10]\<rparr>) \<and>
    in_flight c' = 0 \<and> processed c' = 2"
  using write_messages_in_order [of demo_ext
      "demo_conn\<lparr>conn_r := [as_cmd (Fin ''a''), as_cmd Nop], in_flight := 2\<rparr>" "demo_sock []"
      "\<lambda>i. 0"]
  by (auto simp: demo_sock_def batch_ok_def counters_ok_def wire_cmd_def wire_line_def cmd_ok_def)

section \<open>Responses and connecting\<close>

text \<open>
  A response is taken from the end of the queue. When \<open>get_response\<close> is asked for, the
  answer is the most recently decoded one, an error frame gives \<open>Err\<close>, and with no decoded
  answer at all (a partial frame or only a heartbeat was read) the client panics.
\<close>

lemma get_response_takes_last:
  "conn_get_response c =
     (case rev (responses c) of
        [] \<Rightarrow> Inl UnwrapNone
      | Response s # older \<Rightarrow> Inr (Inr s, c\<lparr>responses := rev older\<rparr>)
      | RError e # older \<Rightarrow> Inr (Inl (), c\<lparr>responses := rev older\<rparr>))"
proof (cases "responses c" rule: rev_cases)
  case Nil
  then show ?thesis by (simp add: conn_get_response_def)
next
  case (snoc older a)
  then show ?thesis by (cases a) (simp_all add: conn_get_response_def)
qed

text \<open>
  C29: \<open>connect\<close> ends with the first address that accepts: the addresses before it have each
  been tried once, in order, and nothing is tried after it. If no socket can be made (on
  Windows also if port 4150 is taken) it panics at once, whatever the addresses; if every
  address refuses it panics as well, so the back-off delays never lead to a second attempt on
  any address; a failed name lookup exits the process.
\<close>

theorem connect_first_accepting:
  "connect (Some addrs) N backoff =
     (let n = length (refused N addrs);
          slept = List.map_filter backoff [0..<n]
      in case drop n addrs of
           [] \<Rightarrow> (ConnectPanic UnwrapNone, addrs, slept)
         | a # _ \<Rightarrow> (settled N a, take n addrs @ [a], slept)) \<and>
   connect None N backoff = (ConnectExit 1, [], [])"
proof -
  have "refused N addrs = take (length (refused N addrs)) addrs"
    unfolding refused_def by (rule takeWhile_eq_take)
  then show ?thesis
    by (simp add: connect_def connect_loop_eq Let_def split: list.split)
qed

end
