(* ===== verification/Conn_Ledger.thy ===== *)
theory Conn_Ledger
  imports Conn_Props
begin

text \<open>
  The bookkeeping of a connection over its whole life: \<open>conn_step\<close> is any operation of
  \<open>Conn\<close> with any behaviour of the socket, and \<open>ledger\<close>, which every operation keeps,
  relates the two counters to the messages handed to the readers; no operation changes how many
  of these are \<open>uncounted\<close>.
\<close>

inductive conn_step :: "ext \<Rightarrow> conn \<Rightarrow> conn \<Rightarrow> bool" for X where
  step_read: "read_tcp X c sk = Inr (r, c', sk') \<Longrightarrow> conn_step X c c'"
| step_messages: "write_messages X clock c sk = Inr (c', sk') \<Longrightarrow> conn_step X c c'"
| step_write: "write_tcp c sk = (r, c', sk') \<Longrightarrow> conn_step X c c'"
| step_cmd: "conn_write_cmd X a c = Inr c' \<Longrightarrow> conn_step X c c'"
| step_magic: "magic X c = Inr c' \<Longrightarrow> conn_step X c c'"
| step_identify: "identify X c = Inr c' \<Longrightarrow> conn_step X c c'"
| step_auth: "auth X secret c = Inr c' \<Longrightarrow> conn_step X c c'"
| step_subscribe: "subscribe X topic chan c = Inr c' \<Longrightarrow> conn_step X c c'"
| step_rdy: "conn_rdy X n c = Inr c' \<Longrightarrow> conn_step X c c'"
| step_response: "conn_get_response c = Inr (r, c') \<Longrightarrow> conn_step X c c'"
| step_heartbeat: "conn_step X c (heartbeat_done c)"
| step_tls: "conn_step X c (snd (tls_enabled c))"
| step_queue: "conn_step X c (c\<lparr>conn_r := ch_send m (conn_r c)\<rparr>)"

definition fresh_conn :: "ext \<Rightarrow> conn \<Rightarrow> bool" where
  "fresh_conn X c \<longleftrightarrow> (\<exists>cfg info t. c = conn_new X cfg [] [] info t)"

definition ledger :: "conn \<Rightarrow> bool" where
  "ledger c \<longleftrightarrow> in_flight c + processed c = word_of_nat (length (conn_s c))"

text \<open>The messages sent to the readers that were never counted.\<close>

definition uncounted :: "conn \<Rightarrow> u32" where
  "uncounted c = word_of_nat (length (conn_s c)) - (in_flight c + processed c)"

lemma ledger_uncounted: "ledger c \<longleftrightarrow> uncounted c = 0"
  by (auto simp: ledger_def uncounted_def)

lemma uncounted_fields [simp]:
  "uncounted (c\<lparr>r_buf := b\<rparr>) = uncounted c" "uncounted (c\<lparr>w_buf := wb\<rparr>) = uncounted c"
  "uncounted (c\<lparr>conn_r := q\<rparr>) = uncounted c" "uncounted (c\<lparr>conn_state := st\<rparr>) = uncounted c"
  "uncounted (c\<lparr>need_response := nr\<rparr>) = uncounted c" "uncounted (c\<lparr>heartbeat := h\<rparr>) = uncounted c"
  "uncounted (c\<lparr>responses := rs\<rparr>) = uncounted c" "uncounted (c\<lparr>last_time_sent := t\<rparr>) = uncounted c"
  by (simp_all add: uncounted_def)

lemma add_u32_Inr: "add_u32 ovf a b = Inr r \<Longrightarrow> r = a + b"
  by (auto simp: add_u32_def split: if_splits)

lemma sub_u32_Inr: "sub_u32 ovf a b = Inr r \<Longrightarrow> r = a - b"
  by (auto simp: sub_u32_def split: if_splits)

lemma handle_frame_uncounted: "handle_frame X ty p c = Inr c' \<Longrightarrow> uncounted c' = uncounted c"
  by (auto simp: handle_frame_def uncounted_def Let_def ch_send_def algebra_simps
      split: if_splits dest!: add_u32_Inr)

lemma decode_uncounted:
  assumes "decode X sz c = Inr c'"
  shows "uncounted c' = uncounted c"
proof -
  have "uncounted e = uncounted c" if "uncounted d = uncounted c" "decode_step X sz d = Inr (Some e)" for d e
    using that by (auto simp: decode_step_def Let_def split: if_splits dest!: handle_frame_uncounted)
  then show ?thesis using dec.loop_result [of "\<lambda>d. uncounted d = uncounted c", OF _ refl assms] by blast
qed

lemma read_tcp_uncounted:
  "read_tcp X c sk = Inr (r, c', sk') \<Longrightarrow> uncounted c' = uncounted c"
  by (auto simp: read_tcp_def split: prod.splits sum.splits if_splits dest!: decode_uncounted)

lemma conn_write_cmd_uncounted: "conn_write_cmd X a c = Inr c' \<Longrightarrow> uncounted c' = uncounted c"
  by (auto simp: conn_write_cmd_eq)

lemma write_message_loop_uncounted:
  "write_message_loop X clock ms c sk = Inr (c', sk') \<Longrightarrow> uncounted c' = uncounted c"
proof (induction ms arbitrary: c sk clock)
  case (Cons m ms)
  then obtain c1 sk1 where c1: "conn_write_cmd X (RawCmd m) c = Inr c1" and
      rec: "write_message_loop X (\<lambda>i. clock (Suc i)) ms
        (c1\<lparr>w_buf := bm_clear (w_buf c1), last_time_sent := clock 0,
           in_flight := in_flight c1 - 1, processed := processed c1 + 1\<rparr>) sk1 = Inr (c', sk')"
    by (auto simp: write_tcp_eq dest!: add_u32_Inr sub_u32_Inr)
  from Cons.IH [OF rec] have "uncounted c' = uncounted c1" by (simp add: uncounted_def)
  with conn_write_cmd_uncounted [OF c1] show ?case by simp
qed simp

lemma write_messages_uncounted:
  "write_messages X clock c sk = Inr (c', sk') \<Longrightarrow> uncounted c' = uncounted c"
  by (auto simp: write_messages_def dest!: write_message_loop_uncounted)

lemma conn_step_uncounted: "conn_step X c c' \<Longrightarrow> uncounted c' = uncounted c"
proof (induction rule: conn_step.induct)
  case (step_read c sk r c' sk')
  then show ?case by (rule read_tcp_uncounted)
next
  case (step_messages clock c sk c' sk')
  then show ?case by (rule write_messages_uncounted)
qed (auto simp: write_tcp_eq magic_def identify_def auth_def subscribe_def conn_rdy_def
    conn_get_response_def heartbeat_done_def tls_enabled_def conn_write_cmd_uncounted
    split: option.splits if_splits)

lemma conn_step_ledger: "conn_step X c c' \<Longrightarrow> ledger c \<Longrightarrow> ledger c'"
  by (simp add: ledger_uncounted conn_step_uncounted)

interpretation books: invariant_system "fresh_conn X" "conn_step X" ledger for X
  by unfold_locales
    (auto simp: fresh_conn_def conn_new_def ledger_def dest: conn_step_ledger)

text \<open>
  C24: over the whole life of a connection, whatever its sockets do, the messages counted as
  in flight and the processed commands add up to the messages handed to the readers (as
  32 bit numbers).
\<close>

theorem in_flight_plus_processed:
  assumes "fresh_conn X c" "(conn_step X)\<^sup>*\<^sup>* c c'"
  shows "in_flight c' + processed c' = word_of_nat (length (conn_s c'))"
  using books.inv_reachable [OF assms] by (simp add: ledger_def)

text \<open>A connection that reads some frames, for the witnesses.\<close>

lemma demo_reading:
  assumes "frames_ok demo_ext fs demo_conn" "bs = concat (map enc_frame fs)"
    and "list_all (frame_fits (length bs)) fs" "8 \<le> length bs" "length bs \<le> 16384"
  shows "conn_step demo_ext demo_conn (frames_effect fs (demo_conn\<lparr>r_buf := []\<rparr>))"
proof (rule step_read)
  have "sock_read (unat (output_buffer_size (conn_config demo_conn))) (demo_sock [RdData bs]) =
      (Inr bs, demo_sock [])"
    using assms(5) by (simp add: sock_read_def demo_sock_def)
  moreover have "feed demo_ext bs demo_conn = Inr (frames_effect fs (demo_conn\<lparr>r_buf := []\<rparr>))"
    by (rule feed_frames) (use assms in \<open>simp_all add: waits_def\<close>)
  moreover have "bs \<noteq> []" using assms(4) by auto
  ultimately show "read_tcp demo_ext demo_conn (demo_sock [RdData bs]) =
      Inr (Inr (length bs), frames_effect fs (demo_conn\<lparr>r_buf := []\<rparr>), demo_sock [])"
    by (simp add: read_tcp_feed)
qed

text \<open>Two messages arrive and one FIN is written: one message is left in flight.\<close>

theorem in_flight_plus_processed_witness:
  "\<exists>c. (conn_step demo_ext)\<^sup>*\<^sup>* demo_conn c \<and> conn_s c = [BytesMsg 0 [1, 2, 3], BytesMsg 0 [4]] \<and>
     processed c = 1 \<and> in_flight c = 1"
proof -
  let ?fs = "[(2, [1, 2, 3]), (2, [4])] :: frame list" and ?m = "as_cmd (Fin ''a'')"
  let ?c1 = "frames_effect ?fs (demo_conn\<lparr>r_buf := []\<rparr>)"
  let ?c2 = "?c1\<lparr>conn_r := ch_send ?m (conn_r ?c1)\<rparr>"
  have read: "conn_step demo_ext demo_conn ?c1"
    by (rule demo_reading [OF _ refl])
      (simp_all add: frames_ok_def frame_fits_def enc_frame_def codec_consts)
  have c1: "conn_r ?c1 = []" "in_flight ?c1 = 2" "processed ?c1 = 0" "w_buf ?c1 = w_buf demo_conn"
      "conn_s ?c1 = [BytesMsg 0 [1, 2, 3], BytesMsg 0 [4]]"
    by (simp_all add: frames_effect_def codec_consts) (simp_all add: demo_conn_def conn_new_def)
  have queue: "conn_step demo_ext ?c1 ?c2" by (rule step_queue)
  have ready: "bm_wf (w_buf ?c2)" "bm_data (w_buf ?c2) = []" "batch_ok (conn_r ?c2)"
      "counters_ok demo_ext (length (conn_r ?c2)) ?c2" "s_wr (demo_sock []) = []"
    by (simp_all add: c1 ch_send_def batch_ok_def counters_ok_def cmd_ok_def wire_cmd_def wire_line_def
        demo_sock_def)
  obtain c where c: "write_messages demo_ext (\<lambda>i. 0) ?c2 (demo_sock []) = Inr (c, (demo_sock [])
        \<lparr>s_out := s_out (demo_sock []) @ concat (map (\<lambda>m. wire_cmd (RawCmd m)) (conn_r ?c2))\<rparr>)"
      "conn_s c = conn_s ?c2" "processed c = processed ?c2 + word_of_nat (length (conn_r ?c2))"
    by (rule write_messages_accepting [OF demo_laws(1) ready])
  have steps: "(conn_step demo_ext)\<^sup>*\<^sup>* demo_conn c"
    using read queue step_messages [OF c(1)] by auto
  have f: "fresh_conn demo_ext demo_conn" by (auto simp: fresh_conn_def demo_conn_def)
  have "processed c = 1" "conn_s c = [BytesMsg 0 [1, 2, 3], BytesMsg 0 [4]]"
    using c(2,3) by (simp_all add: c1 ch_send_def)
  moreover have "in_flight c = 1"
    using in_flight_plus_processed [OF f steps] calculation by simp
  ultimately show ?thesis using steps by blast
qed

text \<open>
  C38: a command that answers no message takes the counter below zero. When nothing is in flight
  and nothing has been processed, as for a producer, writing the first queued command ends in
  the overflow panic of a build that checks arithmetic; in a build that does not, its bytes are
  given to the socket and the connection is left with \<open>2 ^ 32 - 1\<close> messages in flight. The buffer
  is empty, the command fits the protocol's length fields and the socket takes what it is given.
\<close>

theorem first_publish_underflows:
  assumes "reserve_law X" "bm_wf (w_buf c)" "bm_data (w_buf c) = []"
    and "conn_r c = [m]" "batch_ok [m]" "in_flight c = 0" "processed c = 0" "s_wr sk = []"
  shows "if overflow_checks X
    then write_messages X clock c sk = Inl ArithmeticOverflow
    else \<exists>c'. write_messages X clock c sk =
           Inr (c', sk\<lparr>s_out := s_out sk @ wire_cmd (RawCmd m)\<rparr>) \<and>
         unat (in_flight c') = 2 ^ 32 - 1 \<and> processed c' = 1"
proof (cases "overflow_checks X")
  case True
  let ?c = "c\<lparr>conn_r := []\<rparr>"
  have "length (bm_data (w_buf ?c)) + length (wire_cmd (RawCmd m)) < 2 ^ 63"
      "bm_wf (w_buf ?c)" "cmd_ok (RawCmd m)"
    using assms by (simp_all add: batch_ok_def)
  then obtain b where "conn_write_cmd X (RawCmd m) ?c = Inr (?c\<lparr>w_buf := b\<rparr>)"
    using conn_write_cmdE [OF assms(1)] by metis
  with True assms show ?thesis by (simp add: write_messages_def sub_u32_def)
next
  case False
  then have cnt: "counters_ok X (length (conn_r c)) c" by (simp add: counters_ok_def)
  have ok: "batch_ok (conn_r c)" using assms(4,5) by simp
  obtain c' where "write_messages X clock c sk =
      Inr (c', sk\<lparr>s_out := s_out sk @ concat (map (\<lambda>m. wire_cmd (RawCmd m)) (conn_r c))\<rparr>)"
      "in_flight c' = in_flight c - word_of_nat (length (conn_r c))"
      "processed c' = processed c + word_of_nat (length (conn_r c))"
    by (rule write_messages_accepting [OF assms(1-3) ok cnt assms(8)])
  with assms(4,6,7) have "\<exists>c'. write_messages X clock c sk =
      Inr (c', sk\<lparr>s_out := s_out sk @ wire_cmd (RawCmd m)\<rparr>) \<and>
      in_flight c' = - 1 \<and> processed c' = 1"
    by auto
  moreover have "unat (- 1 :: u32) = 2 ^ 32 - 1"
    by (simp add: unsigned_minus_1_eq_mask mask_eq_exp_minus_1)
  ultimately show ?thesis using False by auto
qed

theorem first_publish_underflows_witness:
  "write_messages demo_ext (\<lambda>i. 0) (demo_conn\<lparr>conn_r := [as_cmd (Pub ''t'' [1])]\<rparr>)
     (demo_sock []) = Inl ArithmeticOverflow"
  using first_publish_underflows [of demo_ext "demo_conn\<lparr>conn_r := [as_cmd (Pub ''t'' [1])]\<rparr>"
      "as_cmd (Pub ''t'' [1])" "demo_sock []" "\<lambda>i. 0"]
  by (simp add: demo_sock_def batch_ok_def wire_cmd_def wire_line_def cmd_ok_def msg_ok_def)

end
