(* ===== verification/Client.thy ===== *)
theory Client
  imports Conn_Ledger
begin

text \<open>
  \<open>src/client.rs\<close>: the client and its event loop \<open>run\<close>. A state of the loop is a record
  \<open>run\<close>; one event is one iteration of the \<open>for\<close> loop (\<open>plain_event\<close>, \<open>tls_event\<close>), one
  poll one round of the outer loop. What an iteration ends in is a value of \<open>flow\<close>: the
  \<open>for\<close> loop goes on or is left by \<open>break\<close>, \<open>run\<close> returns, the process exits, or the
  thread panics. Events, poll results, handshake outcomes and the socket are inputs. The
  registration of the socket with \<open>mio\<close> is kept as the interest last registered.
\<close>

definition CLIENT_TOKEN :: nat where "CLIENT_TOKEN = 4589"
definition CMD_TOKEN :: nat where "CMD_TOKEN = 3290"

lemmas token_defs = CLIENT_TOKEN_def CMD_TOKEN_def CONNECTION_def

section \<open>The client\<close>

record client =
  cl_rdy :: u32
  cl_max_attemps :: u16
  cl_channel :: string
  cl_topic :: string
  cl_addr :: string
  cl_config :: config
  cl_secret :: "string option"
  cl_msg_channel :: "bytes_msg channel"
  cl_cmd_channel :: "cmd channel"
  cl_sentinel :: "unit channel"
  cl_msg_timeout :: u64

definition client_new ::
  "string \<Rightarrow> string \<Rightarrow> string \<Rightarrow> config \<Rightarrow> string option \<Rightarrow> u32 \<Rightarrow> u16 \<Rightarrow> client"
where
  "client_new topic chan addr cfg secret rdy max_attemps =
     \<lparr>cl_rdy = rdy,
      cl_max_attemps = max_attemps,
      cl_channel = chan,
      cl_topic = topic,
      cl_addr = addr,
      cl_config = cfg,
      cl_secret = secret,
      cl_msg_channel = [],
      cl_cmd_channel = [],
      cl_sentinel = [],
      cl_msg_timeout = 0\<rparr>"

section \<open>States, events and outcomes of the loop\<close>

text \<open>
  \<open>r_shutdown\<close>: \<open>socket.shutdown(Both)\<close> has been called; \<open>r_tls_shutdown\<close>: \<open>shutdown\<close> of the
  TLS stream has been called, which closes the TLS session. Whether these calls succeed makes no
  difference to the program: the outcome of the first is dropped, that of the second is logged.
\<close>

datatype interest = Readable | Writable

record run =
  r_client :: client
  r_conn :: conn
  r_sock :: sock
  r_nsqd :: nsqd_config
  r_last_heartbeat :: nat
  r_interest :: interest
  r_tls :: u8
  r_close :: "u32 channel"
  r_info_open :: bool
  r_shutdown :: bool
  r_tls_shutdown :: bool

text \<open>
  An event with its token and readiness, the time at which it is handled (nanoseconds), the
  clock \<open>write_messages\<close> reads, and what has arrived on the command and close channels since
  the event before.
\<close>

record event =
  ev_token :: nat
  ev_readable :: bool
  ev_now :: nat
  ev_clock :: "nat \<Rightarrow> i64"
  ev_cmds :: "cmd list"
  ev_close :: "u32 list"

datatype flow =
    Continue run
  | Break run
  | Done run
  | Failed run
  | Exit nat
  | Panic panic

definition flow_of :: "panic + 'a \<Rightarrow> ('a \<Rightarrow> flow) \<Rightarrow> flow" where
  "flow_of m f = (case m of Inl p \<Rightarrow> Panic p | Inr a \<Rightarrow> f a)"

lemma flow_of_simps [simp]:
  "flow_of (Inl p) f = Panic p"
  "flow_of (Inr a) f = f a"
  by (simp_all add: flow_of_def)

definition arrive :: "event \<Rightarrow> run \<Rightarrow> run" where
  "arrive ev st =
     st\<lparr>r_conn := (r_conn st)\<lparr>conn_r := conn_r (r_conn st) @ ev_cmds ev\<rparr>,
        r_close := r_close st @ ev_close ev\<rparr>"

definition set_state :: "state \<Rightarrow> run \<Rightarrow> run" where
  "set_state s st = st\<lparr>r_conn := (r_conn st)\<lparr>conn_state := s\<rparr>\<rparr>"

text \<open>The message without content that tells the readers to stop.\<close>

definition send_close_msg :: "run \<Rightarrow> run" where
  "send_close_msg st =
     st\<lparr>r_conn := (r_conn st)\<lparr>conn_s := ch_send (BytesMsg 0 []) (conn_s (r_conn st))\<rparr>\<rparr>"

section \<open>Parts both loops share\<close>

text \<open>Taking a response, with the \<open>unwrap\<close> on the \<open>Err\<close> of an error frame.\<close>

definition expect_response :: "run \<Rightarrow> panic + string \<times> run" where
  "expect_response st =
     rbind (conn_get_response (r_conn st)) (\<lambda>(r, c).
     rbind (unwrap_res r) (\<lambda>s. Inr (s, st\<lparr>r_conn := c\<rparr>)))"

text \<open>A failed read: anything but \<open>WouldBlock\<close> panics, \<open>WouldBlock\<close> is reported and ends
  the \<open>for\<close> loop.\<close>

definition read_failed :: "io_err \<Rightarrow> run \<Rightarrow> flow" where
  "read_failed e st =
     (if e \<noteq> WouldBlock then Panic ExplicitPanic
      else if r_info_open st then
        Break (st\<lparr>r_conn := (r_conn st)\<lparr>s_info :=
          ch_send (IsConnected \<lparr>info_connected = False, info_last_time = 0\<rparr>)
            (s_info (r_conn st))\<rparr>\<rparr>)
      else Panic ExplicitPanic)"

text \<open>After the answer to IDENTIFY or to the TLS upgrade: authenticate or subscribe.\<close>

definition auth_gate :: "run \<Rightarrow> flow" where
  "auth_gate st =
     (if nsqd_auth_required (r_nsqd st) then
        (if cl_secret (r_client st) = None then Exit 1 else Continue (set_state SAuth st))
      else Continue (set_state SSubscribe st))"

text \<open>Every handled response clears \<open>need_response\<close> and waits for the socket to be writable.\<close>

definition response_done :: "flow \<Rightarrow> flow" where
  "response_done f =
     (case f of
        Continue st \<Rightarrow>
          Continue (st\<lparr>r_conn := (r_conn st)\<lparr>need_response := False\<rparr>, r_interest := Writable\<rparr>)
      | _ \<Rightarrow> f)"

text \<open>
  What a readable event does with the outcome of \<open>read\<close>, \<open>h\<close> being the loop's handling of
  responses. At the end of the stream (\<open>Ok(0)\<close>) and after an error the \<open>for\<close> loop is left.
\<close>

definition after_read :: "(run \<Rightarrow> flow) \<Rightarrow> io_err + nat \<Rightarrow> run \<Rightarrow> flow" where
  "after_read h io st =
     (case io of
        Inl e \<Rightarrow> read_failed e st
      | Inr n \<Rightarrow>
          if n = 0 then
            Break (if need_response (r_conn st) then st\<lparr>r_interest := Readable\<rparr> else st)
          else if conn_state (r_conn st) \<noteq> SStarted then response_done (h st)
          else Continue (st\<lparr>r_interest := Writable\<rparr>))"

text \<open>Writing the buffer once and registering for what comes next.\<close>

definition send_request :: "run \<Rightarrow> run" where
  "send_request st =
     (case conn_write (r_conn st) (r_sock st) of (_, c, sk) \<Rightarrow>
        st\<lparr>r_conn := c, r_sock := sk,
           r_interest := (if need_response c then Readable else Writable)\<rparr>)"

text \<open>A writable event of a started connection: answer a heartbeat, then send commands.\<close>

definition answer_heartbeat :: "ext \<Rightarrow> event \<Rightarrow> run \<Rightarrow> panic + run" where
  "answer_heartbeat X ev st =
     (if heartbeat (r_conn st) then
        rbind (conn_write_cmd X Nop (r_conn st)) (\<lambda>c.
        case conn_write c (r_sock st) of (_, c', sk) \<Rightarrow>
          Inr (st\<lparr>r_last_heartbeat := ev_now ev, r_conn := heartbeat_done c', r_sock := sk\<rparr>))
      else Inr st)"

definition flush_commands :: "ext \<Rightarrow> event \<Rightarrow> run \<Rightarrow> panic + run" where
  "flush_commands X ev st =
     rbind (write_messages X (ev_clock ev) (r_conn st) (r_sock st)) (\<lambda>(c, sk).
     Inr (st\<lparr>r_conn := c, r_sock := sk\<rparr>))"

section \<open>The loop over the plain socket\<close>

definition plain_started_write :: "ext \<Rightarrow> event \<Rightarrow> run \<Rightarrow> flow" where
  "plain_started_write X ev st =
     flow_of (rbind (answer_heartbeat X ev st) (flush_commands X ev)) (\<lambda>st'.
     Continue (st'\<lparr>r_interest := Readable\<rparr>))"

definition plain_response :: "ext \<Rightarrow> run \<Rightarrow> flow" where
  "plain_response X st =
     (case conn_state (r_conn st) of
        SIdentify \<Rightarrow>
          flow_of (expect_response st) (\<lambda>(resp, st1).
          flow_of (unwrap_opt (x_nsqd_json X resp)) (\<lambda>nc.
          let st2 = st1\<lparr>r_nsqd := nc,
                        r_conn := (r_conn st1)\<lparr>msg_timeout := nsqd_msg_timeout nc\<rparr>\<rparr> in
          if nsqd_tls_v1 nc then
            (case tls_enabled (r_conn st2) of (t, c) \<Rightarrow> Break (st2\<lparr>r_tls := t, r_conn := c\<rparr>))
          else auth_gate st2))
      | STls \<Rightarrow> flow_of (expect_response st) (\<lambda>(resp, st1). auth_gate st1)
      | SAuth \<Rightarrow> flow_of (expect_response st) (\<lambda>(resp, st1). Continue (set_state SSubscribe st1))
      | SSubscribe \<Rightarrow> flow_of (expect_response st) (\<lambda>(resp, st1). Continue (set_state SRdy st1))
      | _ \<Rightarrow> Continue st)"

definition plain_read :: "ext \<Rightarrow> run \<Rightarrow> flow" where
  "plain_read X st =
     flow_of (conn_read X (r_conn st) (r_sock st)) (\<lambda>(io, c, sk).
     after_read (plain_response X) io (st\<lparr>r_conn := c, r_sock := sk\<rparr>))"

definition plain_request :: "ext \<Rightarrow> run \<Rightarrow> flow" where
  "plain_request X st =
     flow_of
       (case conn_state (r_conn st) of
          SIdentify \<Rightarrow> identify X (r_conn st)
        | SAuth \<Rightarrow>
            (case cl_secret (r_client st) of
               Some s \<Rightarrow> auth X s (r_conn st)
             | None \<Rightarrow> Inr (r_conn st))
        | SSubscribe \<Rightarrow>
            subscribe X (cl_topic (r_client st)) (cl_channel (r_client st)) (r_conn st)
        | SRdy \<Rightarrow> conn_rdy X (cl_rdy (r_client st)) (r_conn st)
        | _ \<Rightarrow> Inr (r_conn st))
       (\<lambda>c. Continue (send_request (st\<lparr>r_conn := c\<rparr>)))"

definition plain_close :: "run \<Rightarrow> flow" where
  "plain_close st =
     (case ch_try_recv (r_close st) of
        (Some m, rest) \<Rightarrow>
          if m = 1 then Done (send_close_msg (st\<lparr>r_close := rest, r_shutdown := True\<rparr>))
          else Continue (st\<lparr>r_close := rest\<rparr>)
      | (None, rest) \<Rightarrow> Continue st)"

definition plain_event :: "ext \<Rightarrow> event \<Rightarrow> run \<Rightarrow> flow" where
  "plain_event X ev st0 =
     (let st = arrive ev st0 in
      if ev_token ev = CMD_TOKEN then plain_close st
      else if ev_token ev = CONNECTION then
        (if ev_readable ev then plain_read X st
         else if conn_state (r_conn st) \<noteq> SStarted then plain_request X st
         else plain_started_write X ev st)
      else flow_of (flush_commands X ev st) Continue)"

section \<open>The loop over the TLS stream\<close>

definition is_producer :: "client \<Rightarrow> bool" where
  "is_producer cl \<longleftrightarrow> cl_topic cl = [] \<and> cl_channel cl = []"

definition tls_started_write :: "ext \<Rightarrow> event \<Rightarrow> run \<Rightarrow> flow" where
  "tls_started_write X ev st =
     flow_of (rbind (answer_heartbeat X ev st) (flush_commands X ev)) (\<lambda>st'.
     Continue (st'\<lparr>r_interest := Readable\<rparr>))"

definition tls_response :: "ext \<Rightarrow> run \<Rightarrow> flow" where
  "tls_response X st =
     (case conn_state (r_conn st) of
        STls \<Rightarrow> flow_of (expect_response st) (\<lambda>(resp, st1). auth_gate st1)
      | SAuth \<Rightarrow> flow_of (expect_response st) (\<lambda>(resp, st1). Continue (set_state SSubscribe st1))
      | SSubscribe \<Rightarrow>
          if is_producer (r_client st) then Continue (set_state SStarted st)
          else flow_of (expect_response st) (\<lambda>(resp, st1). Continue (set_state SRdy st1))
      | _ \<Rightarrow> Continue st)"

definition tls_read :: "ext \<Rightarrow> run \<Rightarrow> flow" where
  "tls_read X st =
     flow_of (conn_read X (r_conn st) (r_sock st)) (\<lambda>(io, c, sk).
     after_read (tls_response X) io (st\<lparr>r_conn := c, r_sock := sk\<rparr>))"

definition tls_request :: "ext \<Rightarrow> run \<Rightarrow> flow" where
  "tls_request X st =
     flow_of
       (case conn_state (r_conn st) of
          SAuth \<Rightarrow>
            (case cl_secret (r_client st) of
               Some s \<Rightarrow> auth X s (r_conn st)
             | None \<Rightarrow> Inr (r_conn st))
        | SSubscribe \<Rightarrow>
            if is_producer (r_client st) then Inr ((r_conn st)\<lparr>conn_state := SStarted\<rparr>)
            else subscribe X (cl_topic (r_client st)) (cl_channel (r_client st)) (r_conn st)
        | SRdy \<Rightarrow> conn_rdy X (cl_rdy (r_client st)) (r_conn st)
        | _ \<Rightarrow> Inr (r_conn st))
       (\<lambda>c. Continue (send_request (st\<lparr>r_conn := c\<rparr>)))"

definition tls_close :: "run \<Rightarrow> flow" where
  "tls_close st =
     (case ch_try_recv (r_close st) of
        (Some m, rest) \<Rightarrow>
          if m = 1 then Done (send_close_msg (st\<lparr>r_close := rest, r_tls_shutdown := True\<rparr>))
          else Continue (st\<lparr>r_close := rest\<rparr>)
      | (None, rest) \<Rightarrow> Continue st)"

definition tls_event :: "ext \<Rightarrow> event \<Rightarrow> run \<Rightarrow> flow" where
  "tls_event X ev st0 =
     (let st = arrive ev st0 in
      if ev_token ev = CMD_TOKEN then tls_close st
      else if ev_token ev = CONNECTION then
        (if ev_readable ev then tls_read X st
         else if conn_state (r_conn st) \<noteq> SStarted then tls_request X st
         else tls_started_write X ev st)
      else flow_of (flush_commands X ev st) Continue)"

section \<open>Polls and the whole of \<open>run\<close>\<close>

text \<open>One \<open>for\<close> loop: a \<open>break\<close> drops the remaining events of the poll.\<close>

fun run_events :: "(event \<Rightarrow> run \<Rightarrow> flow) \<Rightarrow> event list \<Rightarrow> run \<Rightarrow> flow" where
  "run_events h [] st = Continue st"
| "run_events h (ev # evs) st =
     (case h ev st of
        Continue st' \<Rightarrow> run_events h evs st'
      | Break st' \<Rightarrow> Continue st'
      | f \<Rightarrow> f)"

text \<open>A poll fails, or gives its events and the time it returned.\<close>

datatype poll = PollErr | PollOk nat "event list"

definition HEARTBEAT_TIMEOUT :: nat where "HEARTBEAT_TIMEOUT = 45 * 10 ^ 9"

definition check_heartbeat :: "nat \<Rightarrow> run \<Rightarrow> run" where
  "check_heartbeat now st =
     (if HEARTBEAT_TIMEOUT < now - r_last_heartbeat st then send_close_msg st else st)"

definition plain_round :: "ext \<Rightarrow> poll \<Rightarrow> run \<Rightarrow> flow" where
  "plain_round X p st =
     (case p of
        PollErr \<Rightarrow> Panic ExplicitPanic
      | PollOk now evs \<Rightarrow> run_events (plain_event X) evs (check_heartbeat now st))"

definition tls_round :: "ext \<Rightarrow> poll \<Rightarrow> run \<Rightarrow> flow" where
  "tls_round X p st =
     (case p of
        PollErr \<Rightarrow> Panic ExplicitPanic
      | PollOk now evs \<Rightarrow> run_events (tls_event X) evs st)"

fun tls_loop :: "ext \<Rightarrow> poll list \<Rightarrow> run \<Rightarrow> flow" where
  "tls_loop X [] st = Continue st"
| "tls_loop X (p # ps) st =
     (case tls_round X p st of Continue st' \<Rightarrow> tls_loop X ps st' | f \<Rightarrow> f)"

text \<open>
  The handshake retries while it would block. \<open>None\<close>: the given outcomes are used up and it
  is still going on.
\<close>

datatype handshake = HsOk | HsFailure | HsWouldBlock

fun tls_connect :: "handshake list \<Rightarrow> bool option" where
  "tls_connect [] = None"
| "tls_connect (HsOk # hs) = Some True"
| "tls_connect (HsFailure # hs) = Some False"
| "tls_connect (HsWouldBlock # hs) = tls_connect hs"

text \<open>The name the certificate is checked against: the address up to the first colon.\<close>

definition tls_domain :: "string \<Rightarrow> string" where
  "tls_domain a = takeWhile (\<lambda>ch. ch \<noteq> CHR '':'') a"

text \<open>
  What \<open>run\<close> meets in the world: whether the TLS connector and the poll can be created and
  the wakers registered, how the name lookup and the connection attempts end, the stream of each address, the start
  time, the handshake outcomes for a domain, and whether the receiver of the connection
  information is alive.
\<close>

record world =
  w_connector_ok :: bool
  w_poll_ok :: bool
  w_register_ok :: bool
  w_lookup :: "nat list option"
  w_net :: "nat net"
  w_backoff :: "nat \<Rightarrow> nat option"
  w_stream :: "nat \<Rightarrow> sock"
  w_now :: nat
  w_handshake :: "string \<Rightarrow> handshake list"
  w_info_open :: bool

definition enter_tls :: "ext \<Rightarrow> world \<Rightarrow> poll list \<Rightarrow> run \<Rightarrow> flow" where
  "enter_tls X W ps st =
     (if \<not> w_connector_ok W then Panic UnwrapErr
      else
        case tls_connect (w_handshake W (tls_domain (cl_addr (r_client st)))) of
          None \<Rightarrow> Continue st
        | Some ok \<Rightarrow>
            if ok then tls_loop X ps (st\<lparr>r_interest := Readable\<rparr>) else Failed st)"

fun run_loop :: "ext \<Rightarrow> world \<Rightarrow> poll list \<Rightarrow> run \<Rightarrow> flow" where
  "run_loop X W [] st = (if r_tls st = 1 then enter_tls X W [] st else Continue st)"
| "run_loop X W (p # ps) st =
     (if r_tls st = 1 then enter_tls X W (p # ps) st
      else case plain_round X p st of Continue st' \<Rightarrow> run_loop X W ps st' | f \<Rightarrow> f)"

definition run_start :: "client \<Rightarrow> world \<Rightarrow> conn \<Rightarrow> nat \<Rightarrow> run" where
  "run_start cl W c addr =
     \<lparr>r_client = cl,
      r_conn = c,
      r_sock = w_stream W addr,
      r_nsqd = nsqd_config_default,
      r_last_heartbeat = w_now W,
      r_interest = Writable,
      r_tls = 0,
      r_close = [],
      r_info_open = w_info_open W,
      r_shutdown = False,
      r_tls_shutdown = False\<rparr>"

definition client_run :: "ext \<Rightarrow> client \<Rightarrow> world \<Rightarrow> poll list \<Rightarrow> flow" where
  "client_run X cl W polls =
     (let c = conn_new X (cl_config cl) (cl_cmd_channel cl) (cl_msg_channel cl) []
                (cl_msg_timeout cl) in
      if \<not> w_poll_ok W then Panic UnwrapErr
      else if \<not> w_register_ok W then Panic ExplicitPanic
      else
        flow_of (magic X c) (\<lambda>c1.
        case fst (connect (w_lookup W) (w_net W) (w_backoff W)) of
          ConnectExit n \<Rightarrow> Exit n
        | ConnectPanic p \<Rightarrow> Panic p
        | Stream a \<Rightarrow> run_loop X W polls (run_start cl W c1 a)))"

end
