(* ===== verification/Client_Machine.thy ===== *)
theory Client_Machine
  imports Client
begin

text \<open>
  The handshake as a state machine: \<open>hs_edge\<close> is the graph of the states of a connection,
  and every event of either loop moves along at most one of its edges. The invariants of the
  loops (\<open>phase_inv\<close>, \<open>rank_inv\<close>) follow by the rule of \<open>invariant_system\<close>.
\<close>

section \<open>Outcomes\<close>

fun flow_run :: "flow \<Rightarrow> run option" where
  "flow_run (Continue st) = Some st"
| "flow_run (Break st) = Some st"
| "flow_run (Done st) = Some st"
| "flow_run (Failed st) = Some st"
| "flow_run (Exit n) = None"
| "flow_run (Panic p) = None"

abbreviation cstate :: "run \<Rightarrow> state" where
  "cstate st \<equiv> conn_state (r_conn st)"

lemma flow_run_flow_of:
  "flow_run (flow_of m f) = Some st' \<longleftrightarrow> (\<exists>a. m = Inr a \<and> flow_run (f a) = Some st')"
  by (cases m) auto

lemma flow_run_response_done:
  "flow_run (response_done f) = Some st' \<Longrightarrow>
     \<exists>st1. flow_run f = Some st1 \<and> cstate st' = cstate st1 \<and> r_tls st' = r_tls st1"
  by (cases f) (auto simp: response_done_def)

section \<open>What the parts keep\<close>

lemma decode_keeps_state:
  "decode X sz c = Inr c' \<Longrightarrow> conn_state c' = conn_state c"
proof -
  assume d: "decode X sz c = Inr c'"
  have "conn_state c' = conn_state c \<and> decode_step X sz c' = Inr None"
    by (rule dec.loop_result [of "\<lambda>e. conn_state e = conn_state c", OF _ _ d])
      (auto dest: decode_step_keeps)
  then show ?thesis by blast
qed

lemma read_tcp_keeps_state:
  "read_tcp X c sk = Inr (io, c', sk') \<Longrightarrow> conn_state c' = conn_state c"
  by (auto simp: read_tcp_def split: prod.splits sum.splits if_splits
      dest!: decode_keeps_state)

lemma write_messages_keeps_state:
  "write_messages X clock c sk = Inr (c', sk') \<Longrightarrow> conn_state c' = conn_state c"
  by (auto simp: write_messages_def dest!: write_message_loop_keeps)

lemma flush_commands_keeps:
  "flush_commands X ev st = Inr st' \<Longrightarrow> cstate st' = cstate st \<and> r_tls st' = r_tls st"
  by (auto simp: flush_commands_def dest!: write_messages_keeps_state)

lemma answer_heartbeat_keeps:
  "answer_heartbeat X ev st = Inr st' \<Longrightarrow> cstate st' = cstate st \<and> r_tls st' = r_tls st"
  by (auto simp: answer_heartbeat_def conn_write_cmd_eq write_tcp_eq heartbeat_done_def
      split: if_splits)

lemma expect_response_keeps:
  "expect_response st = Inr (s, st') \<Longrightarrow>
     cstate st' = cstate st \<and> r_tls st' = r_tls st \<and> r_client st' = r_client st"
  by (auto simp: expect_response_def conn_get_response_def unwrap_res_def
      split: if_splits sum.splits)

lemma send_request_keeps:
  "cstate (send_request st) = cstate st" "r_tls (send_request st) = r_tls st"
  by (simp_all add: send_request_def write_tcp_eq)

lemma arrive_keeps [simp]:
  "cstate (arrive ev st) = cstate st" "r_tls (arrive ev st) = r_tls st"
  "r_client (arrive ev st) = r_client st"
  by (simp_all add: arrive_def)

lemma set_state_simps [simp]:
  "cstate (set_state s st) = s" "r_tls (set_state s st) = r_tls st"
  by (simp_all add: set_state_def)

lemma send_close_msg_simps [simp]:
  "cstate (send_close_msg st) = cstate st" "r_tls (send_close_msg st) = r_tls st"
  by (simp_all add: send_close_msg_def)

section \<open>The graph of states\<close>

inductive hs_edge :: "state \<Rightarrow> state \<Rightarrow> bool" where
  identify_tls: "hs_edge SIdentify STls"
| identify_auth: "hs_edge SIdentify SAuth"
| identify_subscribe: "hs_edge SIdentify SSubscribe"
| tls_auth: "hs_edge STls SAuth"
| tls_subscribe: "hs_edge STls SSubscribe"
| auth_subscribe: "hs_edge SAuth SSubscribe"
| subscribe_rdy: "hs_edge SSubscribe SRdy"
| subscribe_started: "hs_edge SSubscribe SStarted"
| rdy_started: "hs_edge SRdy SStarted"

inductive_simps hs_edge_from [simp]:
  "hs_edge SStart s" "hs_edge SIdentify s" "hs_edge STls s" "hs_edge SAuth s"
  "hs_edge SSubscribe s" "hs_edge SRdy s" "hs_edge SStarted s" "hs_edge STlsNegotiating s"

definition hs_move :: "state \<Rightarrow> state \<Rightarrow> bool" where
  "hs_move s t \<longleftrightarrow> s = t \<or> hs_edge s t"

lemma auth_gate_move:
  "flow_run (auth_gate st) = Some st' \<Longrightarrow>
     cstate st' \<in> {SAuth, SSubscribe} \<and> r_tls st' = r_tls st"
  by (auto simp: auth_gate_def split: if_splits)

lemma started_write_move:
  "flow_run (plain_started_write X ev st) = Some st' \<Longrightarrow>
     cstate st' = cstate st \<and> r_tls st' = r_tls st"
  "flow_run (tls_started_write X ev st) = Some st' \<Longrightarrow>
     cstate st' = cstate st \<and> r_tls st' = r_tls st"
  by (auto simp: plain_started_write_def tls_started_write_def flow_run_flow_of
      dest!: flush_commands_keeps answer_heartbeat_keeps)

lemma close_move:
  "flow_run (plain_close st) = Some st' \<Longrightarrow> cstate st' = cstate st \<and> r_tls st' = r_tls st"
  "flow_run (tls_close st) = Some st' \<Longrightarrow> cstate st' = cstate st \<and> r_tls st' = r_tls st"
  by (auto simp: plain_close_def tls_close_def split: prod.splits option.splits if_splits)

lemma read_failed_move:
  "flow_run (read_failed e st) = Some st' \<Longrightarrow> cstate st' = cstate st \<and> r_tls st' = r_tls st"
  by (auto simp: read_failed_def split: if_splits)

text \<open>
  Moves of the plain loop: the only edge that enters TLS sets the flag of the outer loop.
\<close>

definition plain_move :: "run \<Rightarrow> run \<Rightarrow> bool" where
  "plain_move st st' \<longleftrightarrow>
     hs_move (cstate st) (cstate st') \<and>
     (if cstate st = SIdentify \<and> cstate st' = STls then r_tls st' = 1
      else r_tls st' = r_tls st)"

lemma plain_response_move:
  "flow_run (plain_response X st) = Some st' \<Longrightarrow> plain_move st st'"
  by (auto simp: plain_response_def flow_run_flow_of plain_move_def hs_move_def tls_enabled_def
      Let_def unwrap_opt_def split: state.splits option.splits if_splits
      dest!: auth_gate_move expect_response_keeps)

lemma after_read_run:
  assumes "flow_run (after_read h io st) = Some st'"
  shows "(\<exists>st1. flow_run (h st) = Some st1 \<and> cstate st' = cstate st1 \<and> r_tls st' = r_tls st1) \<or>
    cstate st' = cstate st \<and> r_tls st' = r_tls st"
proof (cases io)
  case (Inl e)
  with assms show ?thesis by (auto simp: after_read_def dest!: read_failed_move)
next
  case (Inr n)
  with assms show ?thesis
    by (auto simp: after_read_def split: if_splits dest!: flow_run_response_done)
qed

lemma plain_read_move:
  "flow_run (plain_read X st) = Some st' \<Longrightarrow> plain_move st st'"
  by (auto simp: plain_read_def flow_run_flow_of plain_move_def hs_move_def
      dest!: after_read_run plain_response_move dest: read_tcp_keeps_state)

lemma plain_request_move:
  "flow_run (plain_request X st) = Some st' \<Longrightarrow> plain_move st st'"
  by (auto simp: plain_request_def flow_run_flow_of plain_move_def hs_move_def
      send_request_keeps identify_def auth_def subscribe_def conn_rdy_def
      split: state.splits option.splits)

lemma plain_event_move:
  assumes "flow_run (plain_event X ev st) = Some st'"
  shows "plain_move st st'"
proof -
  have "plain_move (arrive ev st) st'"
    using assms
    by (auto simp: plain_event_def Let_def flow_run_flow_of split: if_splits
        dest: plain_read_move plain_request_move)
      (auto simp: plain_move_def hs_move_def
        dest!: close_move started_write_move flush_commands_keeps)
  then show ?thesis by (simp add: plain_move_def)
qed

text \<open>Moves of the TLS loop, which leaves the flag alone.\<close>

definition tls_move :: "run \<Rightarrow> run \<Rightarrow> bool" where
  "tls_move st st' \<longleftrightarrow> hs_move (cstate st) (cstate st') \<and> r_tls st' = r_tls st \<and>
     (cstate st' = STls \<longrightarrow> cstate st = STls)"

lemma tls_response_move:
  "flow_run (tls_response X st) = Some st' \<Longrightarrow> tls_move st st'"
  by (auto simp: tls_response_def flow_run_flow_of tls_move_def hs_move_def
      split: state.splits if_splits dest!: auth_gate_move expect_response_keeps)

lemma tls_read_move:
  "flow_run (tls_read X st) = Some st' \<Longrightarrow> tls_move st st'"
  by (auto simp: tls_read_def flow_run_flow_of tls_move_def hs_move_def
      dest!: after_read_run tls_response_move dest: read_tcp_keeps_state)

lemma tls_request_move:
  "flow_run (tls_request X st) = Some st' \<Longrightarrow> tls_move st st'"
  by (auto simp: tls_request_def flow_run_flow_of tls_move_def hs_move_def
      send_request_keeps auth_def subscribe_def conn_rdy_def
      split: state.splits option.splits if_splits)

lemma tls_event_move:
  assumes "flow_run (tls_event X ev st) = Some st'"
  shows "tls_move st st'"
proof -
  have "tls_move (arrive ev st) st'"
    using assms
    by (auto simp: tls_event_def Let_def flow_run_flow_of split: if_splits
        dest: tls_read_move tls_request_move)
      (auto simp: tls_move_def hs_move_def
        dest!: close_move started_write_move flush_commands_keeps)
  then show ?thesis by (simp add: tls_move_def)
qed

section \<open>Steps of the whole loop\<close>

inductive loop_step :: "ext \<Rightarrow> run \<Rightarrow> run \<Rightarrow> bool" for X where
  plain: "r_tls st \<noteq> 1 \<Longrightarrow> flow_run (plain_event X ev st) = Some st' \<Longrightarrow> loop_step X st st'"
| timer: "r_tls st \<noteq> 1 \<Longrightarrow> loop_step X st (check_heartbeat now st)"
| enter: "r_tls st = 1 \<Longrightarrow> loop_step X st (st\<lparr>r_interest := Readable\<rparr>)"
| tls: "r_tls st = 1 \<Longrightarrow> flow_run (tls_event X ev st) = Some st' \<Longrightarrow> loop_step X st st'"

fun state_rank :: "state \<Rightarrow> nat" where
  "state_rank SStart = 0"
| "state_rank SIdentify = 1"
| "state_rank STlsNegotiating = 2"
| "state_rank STls = 3"
| "state_rank SAuth = 4"
| "state_rank SSubscribe = 5"
| "state_rank SRdy = 6"
| "state_rank SStarted = 7"

lemma state_rank_inj: "state_rank s = state_rank t \<Longrightarrow> s = t"
  by (cases s; cases t) simp_all

text \<open>The states in the order of the handshake.\<close>

instantiation state :: linorder
begin

definition less_eq_state :: "state \<Rightarrow> state \<Rightarrow> bool" where
  "less_eq_state s t \<longleftrightarrow> state_rank s \<le> state_rank t"

definition less_state :: "state \<Rightarrow> state \<Rightarrow> bool" where
  "less_state s t \<longleftrightarrow> state_rank s < state_rank t"

instance
  by intro_classes (auto simp: less_eq_state_def less_state_def intro: state_rank_inj)

end

lemma SStarted_greatest [simp]: "s \<le> SStarted" "SStarted \<le> s \<longleftrightarrow> s = SStarted"
  by (cases s; simp add: less_eq_state_def)+

lemma hs_move_rank: "hs_move s t \<Longrightarrow> s \<le> t"
  by (auto simp: hs_move_def less_eq_state_def elim!: hs_edge.cases)

lemma check_heartbeat_simps [simp]:
  "cstate (check_heartbeat now st) = cstate st" "r_tls (check_heartbeat now st) = r_tls st"
  by (simp_all add: check_heartbeat_def)

lemma loop_step_rank: "loop_step X st st' \<Longrightarrow> cstate st \<le> cstate st'"
  by (induction rule: loop_step.induct)
    (auto dest!: plain_event_move tls_event_move intro: hs_move_rank
      simp: plain_move_def tls_move_def)

interpretation rank: invariant_system
    "\<lambda>st. s \<le> cstate st" "loop_step X" "\<lambda>st. s \<le> cstate st"
  for X s
  by unfold_locales (auto dest: loop_step_rank)

text \<open>The phase of the outer loop and the state of the connection agree.\<close>

definition phase_inv :: "run \<Rightarrow> bool" where
  "phase_inv st \<longleftrightarrow>
     (if r_tls st = 1 then cstate st \<in> {STls, SAuth, SSubscribe, SRdy, SStarted}
      else cstate st \<in> {SIdentify, SAuth, SSubscribe, SRdy, SStarted})"

lemma loop_step_phase: "loop_step X st st' \<Longrightarrow> phase_inv st \<Longrightarrow> phase_inv st'"
proof (induction rule: loop_step.induct)
  case (plain st ev st')
  then show ?case
    by (auto simp: phase_inv_def plain_move_def hs_move_def dest!: plain_event_move
        split: if_splits)
next
  case (tls st ev st')
  then show ?case
    by (auto simp: phase_inv_def tls_move_def hs_move_def dest!: tls_event_move
        split: if_splits)
qed (auto simp: phase_inv_def)

definition run_init :: "run \<Rightarrow> bool" where
  "run_init st \<longleftrightarrow> cstate st = SIdentify \<and> r_tls st = 0"

interpretation phase: invariant_system run_init "loop_step X" phase_inv for X
  by unfold_locales (auto simp: run_init_def phase_inv_def dest: loop_step_phase)

section \<open>\<open>run\<close> only makes such steps\<close>

lemma run_events_steps:
  assumes step: "\<And>ev st st'. P st \<Longrightarrow> flow_run (h ev st) = Some st' \<Longrightarrow> loop_step X st st'"
    and keep: "\<And>ev st st'. P st \<Longrightarrow> h ev st = Continue st' \<Longrightarrow> P st'"
  shows "P st \<Longrightarrow> flow_run (run_events h evs st) = Some st' \<Longrightarrow> (loop_step X)\<^sup>*\<^sup>* st st'"
proof (induction evs arbitrary: st)
  case Nil
  then show ?case by simp
next
  case (Cons ev evs)
  show ?case
  proof (cases "h ev st")
    case (Continue st1)
    with Cons step [of st ev st1] keep [of st ev st1] show ?thesis
      by (auto intro: converse_rtranclp_into_rtranclp)
  qed (use Cons.prems step [of st ev] in auto)
qed

lemma tls_event_keeps_phase:
  "r_tls st = 1 \<Longrightarrow> tls_event X ev st = Continue st' \<Longrightarrow> r_tls st' = 1"
  using tls_event_move [of X ev st st'] by (simp add: tls_move_def)

text \<open>Only a \<open>break\<close> leaves the plain phase.\<close>

lemma flow_of_Continue: "flow_of m f = Continue st \<longleftrightarrow> (\<exists>a. m = Inr a \<and> f a = Continue st)"
  by (cases m) auto

lemma response_done_Continue:
  "response_done f = Continue st' \<Longrightarrow> \<exists>st1. f = Continue st1 \<and> r_tls st' = r_tls st1"
  by (cases f) (auto simp: response_done_def)

lemma plain_response_keeps_phase:
  "plain_response X st = Continue st' \<Longrightarrow> r_tls st' = r_tls st"
  by (auto simp: plain_response_def flow_of_Continue Let_def tls_enabled_def auth_gate_def
      split: state.splits if_splits dest!: expect_response_keeps)

lemma after_read_Continue:
  "after_read h io st = Continue st' \<Longrightarrow>
     (\<exists>st1. h st = Continue st1 \<and> r_tls st' = r_tls st1) \<or> r_tls st' = r_tls st"
  by (auto simp: after_read_def read_failed_def split: sum.splits if_splits
      dest!: response_done_Continue)

lemma plain_event_keeps_phase:
  "r_tls st \<noteq> 1 \<Longrightarrow> plain_event X ev st = Continue st' \<Longrightarrow> r_tls st' \<noteq> 1"
  by (auto simp: plain_event_def plain_read_def plain_request_def plain_started_write_def
      plain_close_def Let_def flow_of_Continue send_request_keeps
      split: if_splits prod.splits option.splits
      dest!: flush_commands_keeps answer_heartbeat_keeps after_read_Continue
        plain_response_keeps_phase)

lemma tls_round_steps:
  assumes "r_tls st = 1" "flow_run (tls_round X p st) = Some st'"
  shows "(loop_step X)\<^sup>*\<^sup>* st st' \<and> r_tls st' = 1"
proof -
  obtain now evs where p: "p = PollOk now evs" "flow_run (run_events (tls_event X) evs st) = Some st'"
    using assms(2) by (cases p) (auto simp: tls_round_def)
  have "(loop_step X)\<^sup>*\<^sup>* st st'"
    by (rule run_events_steps [where P = "\<lambda>st. r_tls st = 1", OF loop_step.tls tls_event_keeps_phase
          assms(1) p(2)])
  moreover have "r_tls st' = 1" if "(loop_step X)\<^sup>*\<^sup>* st st'" for st'
    using that
  proof (induction rule: rtranclp_induct)
    case (step s t)
    from step(2,3) show ?case
      by (cases rule: loop_step.cases) (auto dest!: tls_event_move simp: tls_move_def)
  qed (use assms in simp)
  ultimately show ?thesis by blast
qed

lemma tls_loop_steps:
  "r_tls st = 1 \<Longrightarrow> flow_run (tls_loop X ps st) = Some st' \<Longrightarrow> (loop_step X)\<^sup>*\<^sup>* st st'"
proof (induction ps arbitrary: st)
  case (Cons p ps)
  show ?case
  proof (cases "tls_round X p st")
    case (Continue st1)
    with Cons tls_round_steps [of st X p st1] show ?thesis by (auto intro: rtranclp_trans)
  qed (use Cons.prems tls_round_steps [of st X p st'] in auto)
qed simp

lemma enter_tls_steps:
  assumes "r_tls st = 1" "flow_run (enter_tls X W ps st) = Some st'"
  shows "(loop_step X)\<^sup>*\<^sup>* st st'"
proof -
  have "(loop_step X)\<^sup>*\<^sup>* st st'"
    if "flow_run (tls_loop X ps (st\<lparr>r_interest := Readable\<rparr>)) = Some st'"
    using tls_loop_steps [OF _ that] loop_step.enter [OF assms(1), of X] assms(1)
    by (auto intro: converse_rtranclp_into_rtranclp)
  with assms(2) show ?thesis
    by (auto simp: enter_tls_def split: if_splits option.splits)
qed

lemma plain_round_steps:
  assumes "r_tls st \<noteq> 1" "flow_run (plain_round X p st) = Some st'"
  shows "(loop_step X)\<^sup>*\<^sup>* st st'"
proof -
  obtain now evs where p: "p = PollOk now evs"
      "flow_run (run_events (plain_event X) evs (check_heartbeat now st)) = Some st'"
    using assms(2) by (cases p) (auto simp: plain_round_def)
  have "loop_step X st (check_heartbeat now st)" using assms(1) by (rule loop_step.timer)
  moreover have "(loop_step X)\<^sup>*\<^sup>* (check_heartbeat now st) st'"
    by (rule run_events_steps [where P = "\<lambda>st. r_tls st \<noteq> 1" and h = "plain_event X" and evs = evs])
      (use assms(1) p(2) in \<open>auto intro: loop_step.plain dest: plain_event_keeps_phase\<close>)
  ultimately show ?thesis by (rule converse_rtranclp_into_rtranclp)
qed

lemma run_loop_steps:
  "flow_run (run_loop X W ps st) = Some st' \<Longrightarrow> (loop_step X)\<^sup>*\<^sup>* st st'"
proof (induction ps arbitrary: st)
  case Nil
  then show ?case by (auto split: if_splits dest: enter_tls_steps)
next
  case (Cons p ps)
  show ?case
  proof (cases "r_tls st = 1")
    case True
    with Cons.prems enter_tls_steps show ?thesis by auto
  next
    case False
    show ?thesis
    proof (cases "plain_round X p st")
      case (Continue st1)
      with False Cons plain_round_steps [of st X p st1] show ?thesis
        by (auto intro: rtranclp_trans)
    qed (use False Cons.prems plain_round_steps [of st X p st'] in auto)
  qed
qed

lemma client_run_steps:
  assumes "flow_run (client_run X cl W polls) = Some st'"
  obtains st where "run_init st" "(loop_step X)\<^sup>*\<^sup>* st st'"
proof -
  from assms obtain c1 a where c1: "magic X (conn_new X (cl_config cl) (cl_cmd_channel cl)
        (cl_msg_channel cl) [] (cl_msg_timeout cl)) = Inr c1"
    and run: "flow_run (run_loop X W polls (run_start cl W c1 a)) = Some st'"
    by (cases "fst (connect (w_lookup W) (w_net W) (w_backoff W))")
      (auto simp: client_run_def flow_run_flow_of Let_def split: if_splits)
  from c1 have "run_init (run_start cl W c1 a)"
    by (auto simp: magic_def run_init_def run_start_def)
  then show ?thesis using run_loop_steps [OF run] by (rule that)
qed

end
