(* ===== verification/Client_Handshake.thy ===== *)
theory Client_Handshake
  imports Client_Machine
begin

text \<open>
  The handshake from connecting to the started connection, on a socket that accepts what is
  written and answers each request with one response frame. \<open>hs_at\<close> describes a run between
  two events; \<open>request_round\<close> and \<open>answer_round\<close> are the two kinds of rounds, from which
  whole handshakes are composed.
\<close>

section \<open>Rounds with one event\<close>

definition wr_ev :: "nat \<Rightarrow> event" where
  "wr_ev t = \<lparr>ev_token = CONNECTION, ev_readable = False, ev_now = t, ev_clock = (\<lambda>i. 0),
     ev_cmds = [], ev_close = []\<rparr>"

definition rd_ev :: "nat \<Rightarrow> event" where
  "rd_ev t = \<lparr>ev_token = CONNECTION, ev_readable = True, ev_now = t, ev_clock = (\<lambda>i. 0),
     ev_cmds = [], ev_close = []\<rparr>"

lemma arrive_nothing [simp]: "arrive (wr_ev t) st = st" "arrive (rd_ev t) st = st"
  by (simp_all add: arrive_def wr_ev_def rd_ev_def)

lemma plain_event_wr:
  "plain_event X (wr_ev t) st =
     (if cstate st \<noteq> SStarted then plain_request X st else plain_started_write X (wr_ev t) st)"
  by (simp add: plain_event_def Let_def) (simp add: wr_ev_def token_defs)

lemma plain_event_rd: "plain_event X (rd_ev t) st = plain_read X st"
  by (simp add: plain_event_def Let_def) (simp add: rd_ev_def token_defs)

lemma tls_event_wr:
  "tls_event X (wr_ev t) st =
     (if cstate st \<noteq> SStarted then tls_request X st else tls_started_write X (wr_ev t) st)"
  by (simp add: tls_event_def Let_def) (simp add: wr_ev_def token_defs)

lemma tls_event_rd: "tls_event X (rd_ev t) st = tls_read X st"
  by (simp add: tls_event_def Let_def) (simp add: rd_ev_def token_defs)

section \<open>A run between two events of the handshake\<close>

definition hs_at ::
  "client \<Rightarrow> nsqd_config \<Rightarrow> u8 \<Rightarrow> nat \<Rightarrow> state \<Rightarrow> bytes \<Rightarrow> bytes \<Rightarrow> rd_outcome list \<Rightarrow> run \<Rightarrow> bool"
where
  "hs_at cl nc tls t s w out ins st \<longleftrightarrow>
     r_client st = cl \<and> r_nsqd st = nc \<and> r_tls st = tls \<and>
     t - r_last_heartbeat st \<le> HEARTBEAT_TIMEOUT \<and> cstate st = s \<and>
     s_out (r_sock st) = out \<and> s_in (r_sock st) = ins \<and> s_wr (r_sock st) = [] \<and>
     r_buf (r_conn st) = [] \<and> responses (r_conn st) = [] \<and>
     conn_config (r_conn st) = cl_config cl \<and>
     bm_wf (w_buf (r_conn st)) \<and> bm_data (w_buf (r_conn st)) = w"

text \<open>The command a state of the handshake sends, and the state after sending it.\<close>

definition hs_command :: "ext \<Rightarrow> client \<Rightarrow> state \<Rightarrow> nsq_cmd option" where
  "hs_command X cl s =
     (case s of
        SIdentify \<Rightarrow> map_option Identify (x_config_json X (cl_config cl))
      | SAuth \<Rightarrow> map_option Auth (cl_secret cl)
      | SSubscribe \<Rightarrow> Some (Subscribe (cl_topic cl) (cl_channel cl))
      | SRdy \<Rightarrow> Some (Rdy (cl_rdy cl))
      | _ \<Rightarrow> None)"

definition hs_sent :: "state \<Rightarrow> state" where
  "hs_sent s = (if s = SRdy then SStarted else s)"

lemma request_sent:
  assumes "reserve_law X" "cmd_ok a" "length w + length (wire_cmd a) < 2 ^ 63"
    and "hs_at cl nc tls t s w out ins st"
    and "m = rbind (conn_write_cmd X a (r_conn st)) (\<lambda>c.
      Inr (c\<lparr>conn_state := s', need_response := nr\<rparr>))"
  obtains st' where "flow_of m (\<lambda>c. Continue (send_request (st\<lparr>r_conn := c\<rparr>))) = Continue st'"
    "hs_at cl nc tls t s' [] (out @ w @ wire_cmd a) ins st'"
proof -
  obtain b where "conn_write_cmd X a (r_conn st) = Inr ((r_conn st)\<lparr>w_buf := b\<rparr>)"
      "bm_wf b" "bm_data b = bm_data (w_buf (r_conn st)) @ wire_cmd a"
    by (rule conn_write_cmdE [of X "r_conn st" a]) (use assms in \<open>simp_all add: hs_at_def\<close>)
  with assms(4,5) show ?thesis
    by (intro that) (auto simp: send_request_def hs_at_def)
qed

lemma plain_request_command:
  assumes "hs_command X cl s = Some a" "r_client st = cl" "cstate st = s"
    and "conn_config (r_conn st) = cl_config cl"
  shows "\<exists>nr. plain_request X st = flow_of
    (rbind (conn_write_cmd X a (r_conn st)) (\<lambda>c.
       Inr (c\<lparr>conn_state := hs_sent s, need_response := nr\<rparr>)))
    (\<lambda>c. Continue (send_request (st\<lparr>r_conn := c\<rparr>)))"
  using assms
  by (cases s) (auto simp: plain_request_def hs_command_def hs_sent_def identify_def auth_def
      subscribe_def conn_rdy_def conn_write_cmd_def)

lemma tls_request_command:
  assumes "hs_command X cl s = Some a" "r_client st = cl" "cstate st = s"
    and "s \<noteq> SIdentify" "s \<noteq> SAuth \<longrightarrow> \<not> is_producer cl"
  shows "\<exists>nr. tls_request X st = flow_of
    (rbind (conn_write_cmd X a (r_conn st)) (\<lambda>c.
       Inr (c\<lparr>conn_state := hs_sent s, need_response := nr\<rparr>)))
    (\<lambda>c. Continue (send_request (st\<lparr>r_conn := c\<rparr>)))"
  using assms
  by (cases s) (auto simp: tls_request_def hs_command_def hs_sent_def auth_def subscribe_def
      conn_rdy_def)

lemma check_heartbeat_in_time:
  "hs_at cl nc tls t s w out ins st \<Longrightarrow> check_heartbeat t st = st"
  by (simp add: hs_at_def check_heartbeat_def)

text \<open>A writable event sends the command of the state.\<close>

lemma request_round:
  assumes "reserve_law X" "hs_command X cl s = Some a" "cmd_ok a"
    and "length w + length (wire_cmd a) < 2 ^ 63" "hs_at cl nc tls t s w out ins st"
  obtains st' where "plain_round X (PollOk t [wr_ev t]) st = Continue st'"
    "hs_at cl nc tls t (hs_sent s) [] (out @ w @ wire_cmd a) ins st'"
proof -
  have s: "cstate st = s" "s \<noteq> SStarted" "r_client st = cl"
      "conn_config (r_conn st) = cl_config cl"
    using assms(2,5) by (auto simp: hs_at_def hs_command_def)
  obtain nr where req: "plain_request X st = flow_of
    (rbind (conn_write_cmd X a (r_conn st)) (\<lambda>c.
       Inr (c\<lparr>conn_state := hs_sent s, need_response := nr\<rparr>)))
    (\<lambda>c. Continue (send_request (st\<lparr>r_conn := c\<rparr>)))"
    using plain_request_command [OF assms(2) s(3,1,4)] by blast
  obtain st' where "plain_request X st = Continue st'"
      "hs_at cl nc tls t (hs_sent s) [] (out @ w @ wire_cmd a) ins st'"
    unfolding req by (rule request_sent [OF assms(1,3,4,5) refl])
  then show ?thesis
    using s by (intro that) (simp_all add: plain_round_def check_heartbeat_in_time [OF assms(5)]
        plain_event_wr)
qed

lemma tls_request_round:
  assumes "reserve_law X" "hs_command X cl s = Some a" "cmd_ok a"
    and "length w + length (wire_cmd a) < 2 ^ 63" "hs_at cl nc tls t s w out ins st"
    and "s \<noteq> SIdentify" "s \<noteq> SAuth \<longrightarrow> \<not> is_producer cl"
  obtains st' where "tls_round X (PollOk t [wr_ev t]) st = Continue st'"
    "hs_at cl nc tls t (hs_sent s) [] (out @ w @ wire_cmd a) ins st'"
proof -
  have s: "cstate st = s" "s \<noteq> SStarted" "r_client st = cl"
    using assms(2,5) by (auto simp: hs_at_def hs_command_def)
  obtain nr where req: "tls_request X st = flow_of
    (rbind (conn_write_cmd X a (r_conn st)) (\<lambda>c.
       Inr (c\<lparr>conn_state := hs_sent s, need_response := nr\<rparr>)))
    (\<lambda>c. Continue (send_request (st\<lparr>r_conn := c\<rparr>)))"
    using tls_request_command [OF assms(2) s(3,1) assms(6,7)] by blast
  obtain st' where "tls_request X st = Continue st'"
      "hs_at cl nc tls t (hs_sent s) [] (out @ w @ wire_cmd a) ins st'"
    unfolding req by (rule request_sent [OF assms(1,3,4,5) refl])
  then show ?thesis
    using s by (intro that) (simp_all add: tls_round_def tls_event_wr)
qed

section \<open>Answers\<close>

definition answer :: "string \<Rightarrow> bytes" where
  "answer r = enc_frame (FRAME_TYPE_RESPONSE, as_bytes r)"

definition good_answer :: "client \<Rightarrow> string \<Rightarrow> bool" where
  "good_answer cl r \<longleftrightarrow> valid_str r \<and> r \<noteq> HEARTBEAT \<and> length r + 8 < 2 ^ 31 \<and>
     length r + 8 \<le> unat (output_buffer_size (cl_config cl))"

lemma length_answer [simp]: "length (answer r) = length r + 8"
  by (simp add: answer_def enc_frame_def)

lemma read_answer:
  assumes "good_answer cl r" "conn_config c = cl_config cl" "r_buf c = []"
    and "s_in sk = RdData (answer r) # ins"
  shows "read_tcp X c sk =
    Inr (Inr (length r + 8), c\<lparr>responses := responses c @ [Response r]\<rparr>, sk\<lparr>s_in := ins\<rparr>)"
proof -
  let ?f = "(FRAME_TYPE_RESPONSE, as_bytes r)"
  have utf8: "from_utf8 (as_bytes r) = Some r" "utf8_valid (as_bytes r)"
    using assms(1) by (simp_all add: good_answer_def from_utf8_as_bytes valid_str_def)
  have rd: "sock_read (unat (output_buffer_size (conn_config c))) sk =
      (Inr (answer r), sk\<lparr>s_in := ins\<rparr>)"
    using assms by (simp add: sock_read_def good_answer_def)
  have "feed X (answer r) c = Inr (frames_effect [?f] (c\<lparr>r_buf := []\<rparr>))"
    by (rule feed_frames)
      (use assms utf8 unsigned_less [of "in_flight c", where ?'a = nat] in \<open>simp_all add: answer_def frame_fits_def good_answer_def waits_def
        frames_ok_def enc_frame_def codec_consts\<close>)
  also have "frames_effect [?f] (c\<lparr>r_buf := []\<rparr>) = c\<lparr>responses := responses c @ [Response r]\<rparr>"
    using assms(1,3) utf8
    by (simp add: frames_effect_def answer_of_def is_heartbeat_def codec_consts good_answer_def
        List.map_filter_simps)
  finally have "feed X (answer r) c = Inr (c\<lparr>responses := responses c @ [Response r]\<rparr>)" .
  moreover have "answer r \<noteq> []" by (metis length_answer add_is_0 list.size(3) zero_neq_numeral)
  ultimately show ?thesis using rd by (simp add: read_tcp_feed)
qed

text \<open>The state after the answer to the request of a state.\<close>

definition gate_state :: "nsqd_config \<Rightarrow> state" where
  "gate_state nc = (if nsqd_auth_required nc then SAuth else SSubscribe)"

definition gate_open :: "client \<Rightarrow> nsqd_config \<Rightarrow> bool" where
  "gate_open cl nc \<longleftrightarrow> (nsqd_auth_required nc \<longrightarrow> cl_secret cl \<noteq> None)"

text \<open>A readable event with the answer to IDENTIFY.\<close>

lemma identify_answer_round:
  assumes "good_answer cl r" "x_nsqd_json X r = Some nc'" "gate_open cl nc'"
    and "hs_at cl nc 0 t SIdentify w out (RdData (answer r) # ins) st"
  obtains st' where "plain_round X (PollOk t [rd_ev t]) st = Continue st'"
    "if nsqd_tls_v1 nc' then hs_at cl nc' 1 t STls w out ins st'
     else hs_at cl nc' 0 t (gate_state nc') w out ins st'"
proof -
  have rd: "read_tcp X (r_conn st) (r_sock st) = Inr (Inr (length r + 8),
      (r_conn st)\<lparr>responses := [Response r]\<rparr>, (r_sock st)\<lparr>s_in := ins\<rparr>)"
    using read_answer [of cl r "r_conn st" "r_sock st" ins X] assms(1,4) by (simp add: hs_at_def)
  have "cstate st = SIdentify" "check_heartbeat t st = st" "r_client st = cl"
    using assms(4) by (simp_all add: hs_at_def check_heartbeat_def)
  with assms(2,3) have "plain_round X (PollOk t [rd_ev t]) st =
      (let st1 = st\<lparr>r_conn := (r_conn st)\<lparr>responses := [], msg_timeout := nsqd_msg_timeout nc',
                need_response := (if nsqd_tls_v1 nc' then need_response (r_conn st) else False),
                conn_state := (if nsqd_tls_v1 nc' then STls else gate_state nc')\<rparr>,
              r_sock := (r_sock st)\<lparr>s_in := ins\<rparr>, r_nsqd := nc'\<rparr>
       in Continue (if nsqd_tls_v1 nc' then st1\<lparr>r_tls := 1\<rparr> else st1\<lparr>r_interest := Writable\<rparr>))"
    by (auto simp: plain_round_def plain_event_rd plain_read_def rd after_read_def
        plain_response_def expect_response_def conn_get_response_def tls_enabled_def
        auth_gate_def gate_open_def gate_state_def set_state_def response_done_def)
  then show ?thesis
    unfolding Let_def by (rule that) (use assms(4) in \<open>simp add: hs_at_def\<close>)
qed

lemma answer_round:
  assumes "good_answer cl r" "hs_at cl nc 0 t s w out (RdData (answer r) # ins) st"
    and "(s, s') \<in> {(SAuth, SSubscribe), (SSubscribe, SRdy)}"
  obtains st' where "plain_round X (PollOk t [rd_ev t]) st = Continue st'"
    "hs_at cl nc 0 t s' w out ins st'"
proof -
  have rd: "read_tcp X (r_conn st) (r_sock st) = Inr (Inr (length r + 8),
      (r_conn st)\<lparr>responses := [Response r]\<rparr>, (r_sock st)\<lparr>s_in := ins\<rparr>)"
    using read_answer [of cl r "r_conn st" "r_sock st" ins X] assms(1,2) by (simp add: hs_at_def)
  have "cstate st = s" "check_heartbeat t st = st"
    using assms(2) by (simp_all add: hs_at_def check_heartbeat_def)
  with assms(3) have "plain_round X (PollOk t [rd_ev t]) st = Continue
      (st\<lparr>r_conn := (r_conn st)\<lparr>responses := [], need_response := False, conn_state := s'\<rparr>,
         r_sock := (r_sock st)\<lparr>s_in := ins\<rparr>, r_interest := Writable\<rparr>)"
    by (auto simp: plain_round_def plain_event_rd plain_read_def rd after_read_def
        plain_response_def expect_response_def conn_get_response_def set_state_def
        response_done_def)
  then show ?thesis by (rule that) (use assms(2) in \<open>simp add: hs_at_def\<close>)
qed

lemma tls_answer_round:
  assumes "good_answer cl r" "hs_at cl nc 1 t s w out (RdData (answer r) # ins) st"
    and "s = STls \<longrightarrow> gate_open cl nc" "s = SSubscribe \<longrightarrow> \<not> is_producer cl"
    and "(s, s') \<in> {(STls, gate_state nc), (SAuth, SSubscribe), (SSubscribe, SRdy)}"
  obtains st' where "tls_round X (PollOk t [rd_ev t]) st = Continue st'"
    "hs_at cl nc 1 t s' w out ins st'"
proof -
  have rd: "read_tcp X (r_conn st) (r_sock st) = Inr (Inr (length r + 8),
      (r_conn st)\<lparr>responses := [Response r]\<rparr>, (r_sock st)\<lparr>s_in := ins\<rparr>)"
    using read_answer [of cl r "r_conn st" "r_sock st" ins X] assms(1,2) by (simp add: hs_at_def)
  have st: "cstate st = s" "r_client st = cl" "r_nsqd st = nc"
    using assms(2) by (simp_all add: hs_at_def)
  from assms(5) consider
      "s = STls \<and> s' = gate_state nc" | "(s, s') \<in> {(SAuth, SSubscribe), (SSubscribe, SRdy)}"
    by auto
  then have "tls_round X (PollOk t [rd_ev t]) st = Continue
      (st\<lparr>r_conn := (r_conn st)\<lparr>responses := [], need_response := False, conn_state := s'\<rparr>,
         r_sock := (r_sock st)\<lparr>s_in := ins\<rparr>, r_interest := Writable\<rparr>)"
  proof cases
    case 1
    with assms(3) st show ?thesis
      by (cases "nsqd_auth_required nc"; cases "cl_secret cl")
        (simp_all add: tls_round_def tls_event_rd tls_read_def rd after_read_def tls_response_def
          expect_response_def conn_get_response_def set_state_def response_done_def
          auth_gate_def gate_open_def gate_state_def)
  next
    case 2
    with assms(4) st show ?thesis
      by (elim insertE)
        (simp_all add: tls_round_def tls_event_rd tls_read_def rd after_read_def tls_response_def
          expect_response_def conn_get_response_def set_state_def response_done_def)
  qed
  then show ?thesis by (rule that) (use assms(2) in \<open>simp add: hs_at_def\<close>)
qed

end
