(* ===== verification/Client_Session.thy ===== *)
theory Client_Session
  imports Client_Handshake
begin

text \<open>
  Whole handshakes. The locale \<open>handshake_rounds\<close> states what the plain loop and the TLS loop
  share, a round that sends the command of the state and a round that takes the answer, and
  proves once what follows the answer to IDENTIFY; both loops interpret it. The properties
  run the client from its start to the started connection and give every byte it has sent.
\<close>

section \<open>What both loops do once nsqd has been identified\<close>

definition wr_poll :: "nat \<Rightarrow> poll" where "wr_poll t = PollOk t [wr_ev t]"
definition rd_poll :: "nat \<Rightarrow> poll" where "rd_poll t = PollOk t [rd_ev t]"

definition small_cmd :: "nsq_cmd \<Rightarrow> bool" where
  "small_cmd a \<longleftrightarrow> cmd_ok a \<and> length (wire_cmd a) < 2 ^ 62"

text \<open>AUTH, if nsqd asks for it.\<close>

definition auth_cmds :: "client \<Rightarrow> nsqd_config \<Rightarrow> nsq_cmd list" where
  "auth_cmds cl nc =
     (if nsqd_auth_required nc then (case cl_secret cl of Some s \<Rightarrow> [Auth s] | None \<Rightarrow> [])
      else [])"

definition auth_polls :: "nat \<Rightarrow> nsqd_config \<Rightarrow> poll list" where
  "auth_polls t nc = (if nsqd_auth_required nc then [wr_poll t, rd_poll t] else [])"

definition auth_answers :: "nsqd_config \<Rightarrow> string \<Rightarrow> rd_outcome list" where
  "auth_answers nc r = (if nsqd_auth_required nc then [RdData (answer r)] else [])"

definition sub_cmds :: "client \<Rightarrow> nsq_cmd list" where
  "sub_cmds cl = [Subscribe (cl_topic cl) (cl_channel cl), Rdy (cl_rdy cl)]"

definition sub_polls :: "nat \<Rightarrow> poll list" where
  "sub_polls t = [wr_poll t, rd_poll t, wr_poll t]"

locale handshake_rounds =
  fixes round :: "ext \<Rightarrow> poll \<Rightarrow> run \<Rightarrow> flow"
    and drive :: "ext \<Rightarrow> poll list \<Rightarrow> run \<Rightarrow> flow"
    and tls :: u8
    and serves :: "client \<Rightarrow> state \<Rightarrow> bool"
  assumes drive_step: "\<lbrakk>hs_at cl nc tls t s w out ins st; round X p st = Continue st'\<rbrakk> \<Longrightarrow>
      drive X (p # ps) st = drive X ps st'"
    and request: "\<lbrakk>reserve_law X; hs_command X cl s = Some a; cmd_ok a;
        length w + length (wire_cmd a) < 2 ^ 63; hs_at cl nc tls t s w out ins st;
        serves cl s; s \<in> {SAuth, SSubscribe, SRdy}\<rbrakk> \<Longrightarrow>
      \<exists>st'. round X (wr_poll t) st = Continue st' \<and>
        hs_at cl nc tls t (hs_sent s) [] (out @ w @ wire_cmd a) ins st'"
    and answer: "\<lbrakk>good_answer cl r; hs_at cl nc tls t s w out (RdData (answer r) # ins) st;
        serves cl s; (s, s') \<in> {(SAuth, SSubscribe), (SSubscribe, SRdy)}\<rbrakk> \<Longrightarrow>
      \<exists>st'. round X (rd_poll t) st = Continue st' \<and> hs_at cl nc tls t s' w out ins st'"
begin

lemma exchange:
  assumes "reserve_law X" "hs_command X cl s = Some a" "small_cmd a" "serves cl s"
    and "good_answer cl r" "hs_at cl nc tls t s [] out (RdData (Client_Handshake.answer r) # ins) st"
    and "(s, s') \<in> {(SAuth, SSubscribe), (SSubscribe, SRdy)}"
  obtains st' where "\<And>ps. drive X (wr_poll t # rd_poll t # ps) st = drive X ps st'"
    "hs_at cl nc tls t s' [] (out @ wire_cmd a) ins st'"
proof -
  have s: "s \<in> {SAuth, SSubscribe, SRdy}" "hs_sent s = s"
    using assms(7) by (auto simp: hs_sent_def)
  have "length ([] :: bytes) + length (wire_cmd a) < 2 ^ 63" "cmd_ok a"
    using assms(3) by (simp_all add: small_cmd_def)
  then obtain st1 where st1: "round X (wr_poll t) st = Continue st1"
      "hs_at cl nc tls t s [] (out @ wire_cmd a)
         (RdData (Client_Handshake.answer r) # ins) st1"
    using request [OF assms(1,2) _ _ assms(6,4) s(1)] s(2) by auto
  obtain st2 where st2: "round X (rd_poll t) st1 = Continue st2"
      "hs_at cl nc tls t s' [] (out @ wire_cmd a) ins st2"
    using answer [OF assms(5) st1(2) assms(4,7)] by blast
  show ?thesis
    by (rule that [OF _ st2(2)])
      (simp add: drive_step [OF assms(6) st1(1)] drive_step [OF st1(2) st2(1)])
qed

lemma authenticate:
  assumes "reserve_law X" "gate_open cl nc" "list_all small_cmd (auth_cmds cl nc)"
    and "serves cl SAuth" "good_answer cl r"
    and "hs_at cl nc tls t (gate_state nc) [] out (auth_answers nc r @ ins) st"
  obtains st' where "\<And>ps. drive X (auth_polls t nc @ ps) st = drive X ps st'"
    "hs_at cl nc tls t SSubscribe [] (out @ concat (map wire_cmd (auth_cmds cl nc))) ins st'"
proof (cases "nsqd_auth_required nc")
  case True
  with assms(2) obtain s where s: "cl_secret cl = Some s" by (auto simp: gate_open_def)
  have small: "small_cmd (Auth s)" using assms(3) True s by (simp add: auth_cmds_def)
  have cmd: "hs_command X cl SAuth = Some (Auth s)" using s by (simp add: hs_command_def)
  have at: "hs_at cl nc tls t SAuth [] out (RdData (Client_Handshake.answer r) # ins) st"
    using assms(6) True by (simp add: auth_answers_def gate_state_def)
  obtain st' where "\<And>ps. drive X (wr_poll t # rd_poll t # ps) st = drive X ps st'"
      "hs_at cl nc tls t SSubscribe [] (out @ wire_cmd (Auth s)) ins st'"
    by (rule exchange [OF assms(1) cmd small assms(4,5) at, of SSubscribe]) auto
  then show ?thesis
    by (intro that [of st']) (simp_all add: auth_polls_def auth_cmds_def True s)
next
  case False
  with assms(6) show ?thesis
    by (intro that [of st]) (simp_all add: auth_polls_def auth_cmds_def auth_answers_def
        gate_state_def)
qed

lemma subscribe_and_ready:
  assumes "reserve_law X" "list_all small_cmd (sub_cmds cl)" "serves cl SSubscribe"
    and "serves cl SRdy" "good_answer cl r"
    and "hs_at cl nc tls t SSubscribe [] out (RdData (Client_Handshake.answer r) # ins) st"
  obtains st' where "\<And>ps. drive X (sub_polls t @ ps) st = drive X ps st'"
    "hs_at cl nc tls t SStarted [] (out @ concat (map wire_cmd (sub_cmds cl))) ins st'"
proof -
  let ?sub = "Subscribe (cl_topic cl) (cl_channel cl)" and ?rdy = "Rdy (cl_rdy cl)"
  have small: "small_cmd ?sub" "small_cmd ?rdy" using assms(2) by (simp_all add: sub_cmds_def)
  have sub: "hs_command X cl SSubscribe = Some ?sub" and rdy: "hs_command X cl SRdy = Some ?rdy"
    by (simp_all add: hs_command_def)
  obtain st1 where st1: "\<And>ps. drive X (wr_poll t # rd_poll t # ps) st = drive X ps st1"
      "hs_at cl nc tls t SRdy [] (out @ wire_cmd ?sub) ins st1"
    by (rule exchange [OF assms(1) sub small(1) assms(3,5,6), of SRdy]) auto
  have "length ([] :: bytes) + length (wire_cmd ?rdy) < 2 ^ 63" "cmd_ok ?rdy"
    using small(2) by (simp_all add: small_cmd_def)
  then obtain st2 where st2: "round X (wr_poll t) st1 = Continue st2"
      "hs_at cl nc tls t SStarted [] (out @ wire_cmd ?sub @ wire_cmd ?rdy) ins st2"
    using request [OF assms(1) rdy _ _ st1(2) assms(4)] by (auto simp: hs_sent_def)
  show ?thesis
    by (rule that [of st2])
      (use st1(1) st2(2) drive_step [OF st1(2) st2(1)] in \<open>simp_all add: sub_polls_def sub_cmds_def\<close>)
qed

end

interpretation plain_rounds: handshake_rounds plain_round "\<lambda>X. run_loop X W" 0 "\<lambda>cl s. True"
  for W
proof unfold_locales
  fix X cl s a w nc t out ins st
  assume "reserve_law X" "hs_command X cl s = Some a" "cmd_ok a"
    "length w + length (wire_cmd a) < 2 ^ 63" "hs_at cl nc 0 t s w out ins st"
  then show "\<exists>st'. plain_round X (wr_poll t) st = Continue st' \<and>
      hs_at cl nc 0 t (hs_sent s) [] (out @ w @ wire_cmd a) ins st'"
    unfolding wr_poll_def by (metis request_round)
next
  fix X cl r nc t s s' w out ins st
  assume "good_answer cl r" "hs_at cl nc 0 t s w out (RdData (answer r) # ins) st"
    "(s, s') \<in> {(SAuth, SSubscribe), (SSubscribe, SRdy)}"
  then show "\<exists>st'. plain_round X (rd_poll t) st = Continue st' \<and> hs_at cl nc 0 t s' w out ins st'"
    unfolding rd_poll_def by (metis answer_round)
qed (simp add: hs_at_def)

interpretation tls_rounds: handshake_rounds tls_round tls_loop 1
    "\<lambda>cl s. s = SSubscribe \<or> s = SRdy \<longrightarrow> \<not> is_producer cl"
proof unfold_locales
  fix X cl s a w nc t out ins st
  assume *: "reserve_law X" "hs_command X cl s = Some a" "cmd_ok a"
    "length w + length (wire_cmd a) < 2 ^ 63" "hs_at cl nc 1 t s w out ins st"
    "s = SSubscribe \<or> s = SRdy \<longrightarrow> \<not> is_producer cl" "s \<in> {SAuth, SSubscribe, SRdy}"
  show "\<exists>st'. tls_round X (wr_poll t) st = Continue st' \<and>
      hs_at cl nc 1 t (hs_sent s) [] (out @ w @ wire_cmd a) ins st'"
    unfolding wr_poll_def by (rule tls_request_round [OF *(1-5)]) (use *(6,7) in auto)
next
  fix X cl r nc t s s' w out ins st
  assume *: "good_answer cl r" "hs_at cl nc 1 t s w out (RdData (answer r) # ins) st"
    "s = SSubscribe \<or> s = SRdy \<longrightarrow> \<not> is_producer cl"
    "(s, s') \<in> {(SAuth, SSubscribe), (SSubscribe, SRdy)}"
  show "\<exists>st'. tls_round X (rd_poll t) st = Continue st' \<and> hs_at cl nc 1 t s' w out ins st'"
    unfolding rd_poll_def
    by (rule tls_answer_round [OF *(1,2), where s' = s']) (use *(3,4) in auto)
qed simp

section \<open>From the start of \<open>run\<close> to the answer to IDENTIFY\<close>

text \<open>Everything up to the first poll succeeds, and the stream will give \<open>ins\<close>.\<close>

definition world_ready :: "world \<Rightarrow> rd_outcome list \<Rightarrow> bool" where
  "world_ready W ins \<longleftrightarrow> w_poll_ok W \<and> w_register_ok W \<and>
     (case fst (connect (w_lookup W) (w_net W) (w_backoff W)) of
        Stream a \<Rightarrow> w_stream W a = \<lparr>s_in = ins, s_wr = [], s_out = []\<rparr>
      | _ \<Rightarrow> False)"

lemma session_start:
  assumes "reserve_law X" "world_ready W ins" "t - w_now W \<le> HEARTBEAT_TIMEOUT"
  obtains st where "\<And>ps. client_run X cl W ps = run_loop X W ps st"
    "hs_at cl nsqd_config_default 0 t SIdentify (as_bytes VERSION) [] ins st"
proof -
  let ?c = "conn_new X (cl_config cl) (cl_cmd_channel cl) (cl_msg_channel cl) []
    (cl_msg_timeout cl)"
  obtain a where a: "fst (connect (w_lookup W) (w_net W) (w_backoff W)) = Stream a"
      "w_stream W a = \<lparr>s_in = ins, s_wr = [], s_out = []\<rparr>"
    using assms(2) by (auto simp: world_ready_def split: connect_result.splits)
  have "bm_wf (w_buf ?c)" "bm_data (w_buf ?c) = []"
    by (simp_all add: conn_new_def bm_new_def bm_wf_def)
  then obtain b where b: "write_magic X VERSION (w_buf ?c) = Inr b" "bm_wf b"
      "bm_data b = as_bytes VERSION"
    using write_magic_appends [OF assms(1), of "w_buf ?c" VERSION] by (auto simp: VERSION_def)
  let ?c1 = "?c\<lparr>w_buf := b, conn_state := SIdentify\<rparr>"
  have "client_run X cl W ps = run_loop X W ps (run_start cl W ?c1 a)" for ps
    using assms(2) a(1) b(1) by (simp add: client_run_def Let_def magic_def world_ready_def)
  moreover have
    "hs_at cl nsqd_config_default 0 t SIdentify (as_bytes VERSION) [] ins (run_start cl W ?c1 a)"
    using assms(3) a(2) b(2,3) by (simp add: hs_at_def run_start_def conn_new_def)
  ultimately show ?thesis by (rule that)
qed

text \<open>The first poll sends the version and IDENTIFY.\<close>

definition asking :: "ext \<Rightarrow> client \<Rightarrow> world \<Rightarrow> nat \<Rightarrow> string \<Rightarrow> rd_outcome list \<Rightarrow> bool" where
  "asking X cl W t j ins \<longleftrightarrow>
     reserve_law X \<and> x_config_json X (cl_config cl) = Some j \<and> small_cmd (Identify j) \<and>
     world_ready W ins \<and> t - w_now W \<le> HEARTBEAT_TIMEOUT"

lemma session_asked:
  assumes "asking X cl W t j ins"
  obtains st where "\<And>ps. client_run X cl W (wr_poll t # ps) = run_loop X W ps st"
    "hs_at cl nsqd_config_default 0 t SIdentify [] (as_bytes VERSION @ wire_cmd (Identify j)) ins st"
proof -
  from assms have X: "reserve_law X" "world_ready W ins" "t - w_now W \<le> HEARTBEAT_TIMEOUT"
    by (simp_all add: asking_def)
  obtain st0 where st0: "\<And>ps. client_run X cl W ps = run_loop X W ps st0"
      "hs_at cl nsqd_config_default 0 t SIdentify (as_bytes VERSION) [] ins st0"
    using session_start [OF X] by metis
  have cmd: "hs_command X cl SIdentify = Some (Identify j)" "cmd_ok (Identify j)"
      "length (as_bytes VERSION) + length (wire_cmd (Identify j)) < 2 ^ 63"
    using assms by (simp_all add: asking_def hs_command_def small_cmd_def VERSION_def)
  obtain st1 where st1: "plain_round X (wr_poll t) st0 = Continue st1"
      "hs_at cl nsqd_config_default 0 t SIdentify []
         (as_bytes VERSION @ wire_cmd (Identify j)) ins st1"
    unfolding wr_poll_def
    by (rule request_round [OF X(1) cmd st0(2)]) (auto simp: hs_sent_def)
  show ?thesis
    by (rule that [OF _ st1(2)])
      (simp add: st0(1) plain_rounds.drive_step [OF st0(2) st1(1)] del: run_loop.simps)
qed

text \<open>What a client and the answer of nsqd to IDENTIFY need for the handshake to begin.\<close>

definition identified ::
  "ext \<Rightarrow> client \<Rightarrow> world \<Rightarrow> nat \<Rightarrow> string \<Rightarrow> string \<Rightarrow> nsqd_config \<Rightarrow> rd_outcome list \<Rightarrow> bool"
where
  "identified X cl W t j r nc ins \<longleftrightarrow>
     asking X cl W t j (RdData (answer r) # ins) \<and> x_nsqd_json X r = Some nc \<and>
     good_answer cl r \<and> gate_open cl nc \<and> list_all small_cmd (auth_cmds cl nc)"

lemma session_identified:
  assumes "identified X cl W t j r nc ins"
  obtains st where
    "\<And>ps. client_run X cl W (wr_poll t # rd_poll t # ps) = run_loop X W ps st"
    "if nsqd_tls_v1 nc
     then hs_at cl nc 1 t STls [] (as_bytes VERSION @ wire_cmd (Identify j)) ins st
     else hs_at cl nc 0 t (gate_state nc) [] (as_bytes VERSION @ wire_cmd (Identify j)) ins st"
proof -
  have "asking X cl W t j (RdData (answer r) # ins)" using assms by (simp add: identified_def)
  then obtain st1 where st1:
      "\<And>ps. client_run X cl W (wr_poll t # ps) = run_loop X W ps st1"
      "hs_at cl nsqd_config_default 0 t SIdentify []
         (as_bytes VERSION @ wire_cmd (Identify j)) (RdData (answer r) # ins) st1"
    by (rule session_asked) auto
  obtain st2 where st2: "plain_round X (rd_poll t) st1 = Continue st2"
      "if nsqd_tls_v1 nc
       then hs_at cl nc 1 t STls [] (as_bytes VERSION @ wire_cmd (Identify j)) ins st2
       else hs_at cl nc 0 t (gate_state nc) [] (as_bytes VERSION @ wire_cmd (Identify j)) ins st2"
    unfolding rd_poll_def
    by (rule identify_answer_round [OF _ _ _ st1(2), of X nc]) (use assms in \<open>auto simp: identified_def\<close>)
  show ?thesis
    by (rule that [OF _ st2(2)])
      (simp add: st1(1) plain_rounds.drive_step [OF st1(2) st2(1)] del: run_loop.simps)
qed

section \<open>Entering TLS\<close>

lemma run_loop_tls: "r_tls st = 1 \<Longrightarrow> run_loop X W ps st = enter_tls X W ps st"
  by (cases ps) simp_all

definition tls_ready :: "client \<Rightarrow> world \<Rightarrow> bool" where
  "tls_ready cl W \<longleftrightarrow> w_connector_ok W \<and>
     tls_connect (w_handshake W (tls_domain (cl_addr cl))) = Some True"

lemma enter_tls_round:
  assumes "tls_ready cl W" "gate_open cl nc" "good_answer cl r"
    and "hs_at cl nc 1 t STls w out (RdData (answer r) # ins) st"
  obtains st' where "\<And>ps. run_loop X W (rd_poll t # ps) st = tls_loop X ps st'"
    "hs_at cl nc 1 t (gate_state nc) w out ins st'"
proof -
  have st: "r_tls st = 1" "r_client st = cl" using assms(4) by (simp_all add: hs_at_def)
  have at: "hs_at cl nc 1 t STls w out (RdData (answer r) # ins) (st\<lparr>r_interest := Readable\<rparr>)"
    using assms(4) by (simp add: hs_at_def)
  obtain st' where st': "tls_round X (rd_poll t) (st\<lparr>r_interest := Readable\<rparr>) = Continue st'"
      "hs_at cl nc 1 t (gate_state nc) w out ins st'"
    unfolding rd_poll_def
    by (rule tls_answer_round [OF assms(3) at, where s' = "gate_state nc"]) (use assms(2) in auto)
  show ?thesis
    by (rule that [OF _ st'(2)])
      (use assms(1) st st'(1) in \<open>simp add: run_loop_tls enter_tls_def tls_ready_def\<close>)
qed

lemma is_producer_start:
  assumes "is_producer cl" "hs_at cl nc 1 t SSubscribe [] out ins st"
  obtains st' where "tls_round X (wr_poll t) st = Continue st'"
    "hs_at cl nc 1 t SStarted [] out ins st'"
proof -
  have st: "cstate st = SSubscribe" "r_client st = cl" using assms(2) by (simp_all add: hs_at_def)
  have "tls_round X (wr_poll t) st =
      Continue (send_request (st\<lparr>r_conn := (r_conn st)\<lparr>conn_state := SStarted\<rparr>\<rparr>))"
    using assms(1) st by (simp add: tls_round_def wr_poll_def tls_event_wr tls_request_def)
  then show ?thesis
    by (rule that) (use assms(2) in \<open>auto simp: hs_at_def send_request_def write_tcp_eq\<close>)
qed

section \<open>A client, a world and an answer for the examples\<close>

definition demo_client :: "string \<Rightarrow> string \<Rightarrow> client" where
  "demo_client topic chan =
     client_new topic chan ''127.0.0.1:4150'' (config_default None) (Some ''pw'') 5 0"

definition demo_world :: "rd_outcome list \<Rightarrow> world" where
  "demo_world ins =
     \<lparr>w_connector_ok = True, w_poll_ok = True, w_register_ok = True, w_lookup = Some [0],
      w_net = good_net, w_backoff = (\<lambda>i. None),
      w_stream = (\<lambda>a. demo_sock ins), w_now = 0,
      w_handshake = (\<lambda>d. [HsWouldBlock, HsOk]), w_info_open = True\<rparr>"

definition demo_nsqd :: "bool \<Rightarrow> nsqd_config" where
  "demo_nsqd tls = nsqd_config_default\<lparr>nsqd_auth_required := True, nsqd_tls_v1 := tls\<rparr>"

definition demo_x :: "bool \<Rightarrow> ext" where
  "demo_x tls = std_ext True ''{}'' (demo_nsqd tls)"

lemma demo_nsqd_fields [simp]:
  "nsqd_auth_required (demo_nsqd tls)" "nsqd_tls_v1 (demo_nsqd tls) = tls"
  by (simp_all add: demo_nsqd_def)

lemma demo_good_answers [simp]:
  "good_answer (demo_client topic chan) ''OK''" "good_answer (demo_client topic chan) ''{}''"
  by (simp_all add: good_answer_def demo_client_def client_new_def config_default_def
      valid_str_def HEARTBEAT_def utf8_ranges_def)

lemma demo_small_cmds [simp]:
  "small_cmd (Auth ''pw'')" "small_cmd (Identify ''{}'')" "small_cmd (Subscribe ''t'' ''c'')"
  "small_cmd (Rdy 5)" "small_cmd (Subscribe [] [])"
  by (simp_all add: small_cmd_def cmd_ok_def wire_cmd_def wire_line_def msg_ok_def wire_msg_def
      fmt_u32_def fmt_nat.simps
        digit_char_def)

lemma demo_handshake [simp]:
  "auth_cmds (demo_client topic chan) (demo_nsqd tls) = [Auth ''pw'']"
  "sub_cmds (demo_client topic chan) = [Subscribe topic chan, Rdy 5]"
  "auth_answers (demo_nsqd tls) r = [RdData (answer r)]"
  "auth_polls t (demo_nsqd tls) = [wr_poll t, rd_poll t]"
  "is_producer (demo_client topic chan) \<longleftrightarrow> topic = [] \<and> chan = []"
  "cl_rdy (demo_client topic chan) = 5"
  by (simp_all add: auth_cmds_def sub_cmds_def auth_answers_def auth_polls_def is_producer_def
      demo_client_def client_new_def)

lemma demo_tls_ready [simp]: "tls_ready (demo_client topic chan) (demo_world ins)"
  by (simp add: tls_ready_def demo_world_def)

lemma demo_asking [simp]:
  "asking (demo_x tls) (demo_client topic chan) (demo_world ins) t ''{}'' ins \<longleftrightarrow>
     t \<le> HEARTBEAT_TIMEOUT"
  by (simp add: asking_def demo_x_def world_ready_def demo_world_def demo_sock_def)

lemma demo_identified [simp]:
  "identified (demo_x tls) (demo_client topic chan) (demo_world (RdData (answer ''{}'') # ins)) t
     ''{}'' ''{}'' (demo_nsqd tls) ins \<longleftrightarrow> t \<le> HEARTBEAT_TIMEOUT"
  by (simp add: identified_def gate_open_def)
    (simp add: demo_x_def demo_client_def client_new_def)

lemma plain_handshake:
  assumes "identified X cl W t j r nc (auth_answers nc ra @ RdData (answer rs) # ins)"
    and "\<not> nsqd_tls_v1 nc" "good_answer cl ra" "good_answer cl rs"
    and "list_all small_cmd (sub_cmds cl)"
  shows "\<exists>st. cstate st = SStarted \<and> r_tls st = 0 \<and> s_in (r_sock st) = ins \<and>
    s_out (r_sock st) = as_bytes VERSION @
      concat (map wire_cmd (Identify j # auth_cmds cl nc @ sub_cmds cl)) \<and>
    (\<forall>ps. client_run X cl W (wr_poll t # rd_poll t # auth_polls t nc @ sub_polls t @ ps) =
       run_loop X W ps st)"
proof -
  from assms(1) have id: "reserve_law X" "gate_open cl nc" "list_all small_cmd (auth_cmds cl nc)"
    by (simp_all add: identified_def asking_def)
  let ?out = "as_bytes VERSION @ wire_cmd (Identify j)"
  obtain st1 where st1:
      "\<And>ps. client_run X cl W (wr_poll t # rd_poll t # ps) = run_loop X W ps st1"
      "hs_at cl nc 0 t (gate_state nc) [] ?out (auth_answers nc ra @ RdData (answer rs) # ins) st1"
    using session_identified [OF assms(1)] assms(2) by auto
  obtain st2 where st2: "\<And>ps. run_loop X W (auth_polls t nc @ ps) st1 = run_loop X W ps st2"
      "hs_at cl nc 0 t SSubscribe [] (?out @ concat (map wire_cmd (auth_cmds cl nc)))
         (RdData (answer rs) # ins) st2"
    using plain_rounds.authenticate [OF id TrueI assms(3) st1(2)] by metis
  obtain st3 where st3: "\<And>ps. run_loop X W (sub_polls t @ ps) st2 = run_loop X W ps st3"
      "hs_at cl nc 0 t SStarted []
         ((?out @ concat (map wire_cmd (auth_cmds cl nc))) @ concat (map wire_cmd (sub_cmds cl)))
         ins st3"
    using plain_rounds.subscribe_and_ready [OF id(1) assms(5) TrueI TrueI assms(4) st2(2)]
    by metis
  show ?thesis
    by (intro exI [of _ st3])
      (use st3(2) in \<open>simp add: st1(1) st2(1) st3(1) hs_at_def del: run_loop.simps\<close>)
qed

section \<open>The properties\<close>

text \<open>
  C11: the handshake over the plain socket. If the server answers IDENTIFY, AUTH (when it asks
  for it) and SUB with one response each and does not want TLS, the client reaches the started
  state after exactly one write per request and one read per answer, and what it has sent is
  the protocol version, IDENTIFY with its configuration, AUTH if it was asked for, SUB and
  RDY, in this order and with nothing between or after; the loop then goes on from there.
\<close>

theorem plain_session:
  assumes "identified X cl W t j r nc (auth_answers nc ra @ RdData (answer rs) # ins)"
    and "\<not> nsqd_tls_v1 nc" "good_answer cl ra" "good_answer cl rs"
    and "list_all small_cmd (sub_cmds cl)"
  shows "\<exists>st. cstate st = SStarted \<and> r_tls st = 0 \<and> s_in (r_sock st) = ins \<and>
    s_out (r_sock st) = as_bytes VERSION @
      concat (map wire_cmd (Identify j # auth_cmds cl nc @ sub_cmds cl)) \<and>
    (\<forall>ps. client_run X cl W (wr_poll t # rd_poll t # auth_polls t nc @ sub_polls t @ ps) =
       run_loop X W ps st)"
  using assms by (rule plain_handshake)

theorem plain_session_witness:
  "\<exists>st. cstate st = SStarted \<and>
    client_run (demo_x False) (demo_client ''t'' ''c'')
      (demo_world (map (\<lambda>r. RdData (answer r)) [''{}'', ''OK'', ''OK'']))
      [wr_poll 1, rd_poll 1, wr_poll 1, rd_poll 1, wr_poll 1, rd_poll 1, wr_poll 1] = Continue st \<and>
    s_out (r_sock st) = as_bytes VERSION @ concat (map wire_cmd
      [Identify ''{}'', Auth ''pw'', Subscribe ''t'' ''c'', Rdy 5])"
proof -
  let ?ins = "map (\<lambda>r. RdData (answer r)) [''OK'', ''OK'']"
  have "identified (demo_x False) (demo_client ''t'' ''c'')
      (demo_world (RdData (answer ''{}'') # ?ins)) 1 ''{}'' ''{}'' (demo_nsqd False)
      (auth_answers (demo_nsqd False) ''OK'' @ RdData (answer ''OK'') # [])"
    by (simp add: HEARTBEAT_TIMEOUT_def)
  from plain_session [OF this] show ?thesis
    by (auto simp: sub_polls_def dest!: spec [of _ "[]"])
qed

text \<open>
  C12: the handshake of a consumer over TLS. When nsqd asks for TLS in its answer to IDENTIFY,
  the client enters TLS once, with the name of the address up to the colon; after the answer
  to the upgrade and the same exchange as over the plain socket it is in the started state, in
  the TLS loop.
\<close>

theorem tls_session:
  assumes "identified X cl W t j r nc
      (RdData (answer ru) # auth_answers nc ra @ RdData (answer rs) # ins)"
    and "nsqd_tls_v1 nc" "tls_ready cl W" "\<not> is_producer cl"
    and "good_answer cl ru" "good_answer cl ra" "good_answer cl rs"
    and "list_all small_cmd (sub_cmds cl)"
  shows "\<exists>st. cstate st = SStarted \<and> r_tls st = 1 \<and> s_in (r_sock st) = ins \<and>
    s_out (r_sock st) = as_bytes VERSION @
      concat (map wire_cmd (Identify j # auth_cmds cl nc @ sub_cmds cl)) \<and>
    (\<forall>ps. client_run X cl W
         (wr_poll t # rd_poll t # rd_poll t # auth_polls t nc @ sub_polls t @ ps) =
       tls_loop X ps st)"
proof -
  from assms(1) have id: "reserve_law X" "gate_open cl nc" "list_all small_cmd (auth_cmds cl nc)"
    by (simp_all add: identified_def asking_def)
  let ?out = "as_bytes VERSION @ wire_cmd (Identify j)"
  obtain st1 where st1:
      "\<And>ps. client_run X cl W (wr_poll t # rd_poll t # ps) = run_loop X W ps st1"
      "hs_at cl nc 1 t STls [] ?out
         (RdData (answer ru) # auth_answers nc ra @ RdData (answer rs) # ins) st1"
    using session_identified [OF assms(1)] assms(2) by auto
  obtain st2 where st2: "\<And>ps. run_loop X W (rd_poll t # ps) st1 = tls_loop X ps st2"
      "hs_at cl nc 1 t (gate_state nc) [] ?out
         (auth_answers nc ra @ RdData (answer rs) # ins) st2"
    using enter_tls_round [OF assms(3) id(2) assms(5) st1(2)] by metis
  obtain st3 where st3: "\<And>ps. tls_loop X (auth_polls t nc @ ps) st2 = tls_loop X ps st3"
      "hs_at cl nc 1 t SSubscribe [] (?out @ concat (map wire_cmd (auth_cmds cl nc)))
         (RdData (answer rs) # ins) st3"
    using tls_rounds.authenticate [OF id _ assms(6) st2(2)] by (metis state.distinct)
  obtain st4 where st4: "\<And>ps. tls_loop X (sub_polls t @ ps) st3 = tls_loop X ps st4"
      "hs_at cl nc 1 t SStarted []
         ((?out @ concat (map wire_cmd (auth_cmds cl nc))) @ concat (map wire_cmd (sub_cmds cl)))
         ins st4"
    using tls_rounds.subscribe_and_ready [OF id(1) assms(8) _ _ assms(7) st3(2)] assms(4)
    by metis
  show ?thesis
    by (intro exI [of _ st4])
      (use st4(2) in \<open>simp add: st1(1) st2(1) st3(1) st4(1) hs_at_def
        del: run_loop.simps tls_loop.simps\<close>)
qed

theorem tls_session_witness:
  "\<exists>st. cstate st = SStarted \<and>
    client_run (demo_x True) (demo_client ''t'' ''c'')
      (demo_world (map (\<lambda>r. RdData (answer r)) [''{}'', ''OK'', ''OK'', ''OK'']))
      (map (\<lambda>f. f 1) [wr_poll, rd_poll, rd_poll, wr_poll, rd_poll, wr_poll, rd_poll, wr_poll]) =
      Continue st \<and>
    s_out (r_sock st) = as_bytes VERSION @ concat (map wire_cmd
      [Identify ''{}'', Auth ''pw'', Subscribe ''t'' ''c'', Rdy 5])"
proof -
  let ?ins = "map (\<lambda>r. RdData (answer r)) [''OK'', ''OK'', ''OK'']"
  have "identified (demo_x True) (demo_client ''t'' ''c'')
      (demo_world (RdData (answer ''{}'') # ?ins)) 1 ''{}'' ''{}'' (demo_nsqd True)
      (RdData (answer ''OK'') # auth_answers (demo_nsqd True) ''OK'' @ RdData (answer ''OK'') # [])"
    by (simp add: HEARTBEAT_TIMEOUT_def)
  from tls_session [OF this] show ?thesis
    by (auto simp: sub_polls_def dest!: spec [of _ "[]"])
qed

text \<open>
  A producer over the plain socket subscribes like a consumer. Only the TLS loop leaves SUB
  and RDY out for a client without topic and channel; over the plain socket such a client sends
  a SUB command whose two arguments are empty, and RDY.
\<close>

lemma plain_producer_subscribes:
  assumes "identified X cl W t j r nc (auth_answers nc ra @ RdData (answer rs) # ins)"
    and "\<not> nsqd_tls_v1 nc" "good_answer cl ra" "good_answer cl rs" "is_producer cl"
    and "list_all small_cmd (sub_cmds cl)"
  shows "\<exists>st. client_run X cl W (wr_poll t # rd_poll t # auth_polls t nc @ sub_polls t) = Continue st \<and>
    s_out (r_sock st) = as_bytes VERSION @
      concat (map wire_cmd (Identify j # auth_cmds cl nc)) @ as_bytes ''SUB  '' @ [10] @
      wire_cmd (Rdy (cl_rdy cl))"
proof -
  obtain st where st: "r_tls st = 0" "s_out (r_sock st) = as_bytes VERSION @
      concat (map wire_cmd (Identify j # auth_cmds cl nc @ sub_cmds cl))"
      "\<forall>ps. client_run X cl W (wr_poll t # rd_poll t # auth_polls t nc @ sub_polls t @ ps) =
       run_loop X W ps st"
    using plain_handshake [OF assms(1-4,6)] by blast
  show ?thesis
    by (intro exI [of _ st]) (use st spec [OF st(3), of "[]"] assms(5) in
      \<open>simp add: sub_cmds_def is_producer_def wire_cmd_def [of "Subscribe _ _"] wire_line_def\<close>)
qed

lemma plain_producer_subscribes_example:
  "\<exists>st. client_run (demo_x False) (demo_client [] [])
      (demo_world (map (\<lambda>r. RdData (answer r)) [''{}'', ''OK'', ''OK'']))
      [wr_poll 1, rd_poll 1, wr_poll 1, rd_poll 1, wr_poll 1, rd_poll 1, wr_poll 1] = Continue st \<and>
    s_out (r_sock st) = as_bytes VERSION @ wire_cmd (Identify ''{}'') @ wire_cmd (Auth ''pw'') @
      as_bytes ''SUB  '' @ [10] @ wire_cmd (Rdy 5)"
proof -
  let ?ins = "map (\<lambda>r. RdData (answer r)) [''OK'', ''OK'']"
  have "identified (demo_x False) (demo_client [] [])
      (demo_world (RdData (answer ''{}'') # ?ins)) 1 ''{}'' ''{}'' (demo_nsqd False)
      (auth_answers (demo_nsqd False) ''OK'' @ RdData (answer ''OK'') # [])"
    by (simp add: HEARTBEAT_TIMEOUT_def)
  from plain_producer_subscribes [OF this] show ?thesis
    by (auto simp: sub_polls_def)
qed

text \<open>
  C21: the handshake of a producer over TLS. A producer, which has neither topic nor channel,
  is started after the authentication without sending SUB or RDY.
\<close>

theorem tls_producer_session:
  assumes "identified X cl W t j r nc (RdData (answer ru) # auth_answers nc ra @ ins)"
    and "nsqd_tls_v1 nc" "tls_ready cl W" "is_producer cl"
    and "good_answer cl ru" "good_answer cl ra"
  shows "\<exists>st. cstate st = SStarted \<and> r_tls st = 1 \<and> s_in (r_sock st) = ins \<and>
    s_out (r_sock st) = as_bytes VERSION @
      concat (map wire_cmd (Identify j # auth_cmds cl nc)) \<and>
    (\<forall>ps. client_run X cl W
         (wr_poll t # rd_poll t # rd_poll t # auth_polls t nc @ wr_poll t # ps) =
       tls_loop X ps st)"
proof -
  from assms(1) have id: "reserve_law X" "gate_open cl nc" "list_all small_cmd (auth_cmds cl nc)"
    by (simp_all add: identified_def asking_def)
  let ?out = "as_bytes VERSION @ wire_cmd (Identify j)"
  obtain st1 where st1:
      "\<And>ps. client_run X cl W (wr_poll t # rd_poll t # ps) = run_loop X W ps st1"
      "hs_at cl nc 1 t STls [] ?out (RdData (answer ru) # auth_answers nc ra @ ins) st1"
    using session_identified [OF assms(1)] assms(2) by auto
  obtain st2 where st2: "\<And>ps. run_loop X W (rd_poll t # ps) st1 = tls_loop X ps st2"
      "hs_at cl nc 1 t (gate_state nc) [] ?out (auth_answers nc ra @ ins) st2"
    using enter_tls_round [OF assms(3) id(2) assms(5) st1(2)] by metis
  obtain st3 where st3: "\<And>ps. tls_loop X (auth_polls t nc @ ps) st2 = tls_loop X ps st3"
      "hs_at cl nc 1 t SSubscribe [] (?out @ concat (map wire_cmd (auth_cmds cl nc))) ins st3"
    using tls_rounds.authenticate [OF id _ assms(6) st2(2)] by (metis state.distinct)
  obtain st4 where st4: "tls_round X (wr_poll t) st3 = Continue st4"
      "hs_at cl nc 1 t SStarted [] (?out @ concat (map wire_cmd (auth_cmds cl nc))) ins st4"
    using is_producer_start [OF assms(4) st3(2)] by metis
  show ?thesis
    by (intro exI [of _ st4])
      (use st4(2) in \<open>simp add: st1(1) st2(1) st3(1) hs_at_def st4(1) del: run_loop.simps\<close>)
qed

theorem tls_producer_session_witness:
  "\<exists>st. cstate st = SStarted \<and>
    client_run (demo_x True) (demo_client [] [])
      (demo_world (map (\<lambda>r. RdData (answer r)) [''{}'', ''OK'', ''OK'']))
      (map (\<lambda>f. f 1) [wr_poll, rd_poll, rd_poll, wr_poll, rd_poll, wr_poll]) = Continue st \<and>
    s_out (r_sock st) = as_bytes VERSION @ concat (map wire_cmd [Identify ''{}'', Auth ''pw''])"
proof -
  let ?ins = "map (\<lambda>r. RdData (answer r)) [''OK'', ''OK'']"
  have "identified (demo_x True) (demo_client [] [])
      (demo_world (RdData (answer ''{}'') # ?ins)) 1 ''{}'' ''{}'' (demo_nsqd True)
      (RdData (answer ''OK'') # auth_answers (demo_nsqd True) ''OK'' @ [])"
    by (simp add: HEARTBEAT_TIMEOUT_def)
  from tls_producer_session [OF this] show ?thesis
    by (auto dest!: spec [of _ "[]"])
qed

end
