(* ===== verification/Client_Props.thy ===== *)
theory Client_Props
  imports Client_Session
begin

text \<open>
  Properties of the event loop outside the handshake that succeeds: heartbeats, closing, failed
  reads, what a heartbeat or an error does to a handshake, authentication that cannot be done,
  commands that arrive early, and the TLS connect loop.
\<close>

section \<open>Heartbeats\<close>

text \<open>The frame a started connection writes for each queued command.\<close>

abbreviation wire_queue :: "cmd list \<Rightarrow> bytes" where
  "wire_queue ms \<equiv> concat (map (\<lambda>m. wire_cmd (RawCmd m)) ms)"

definition writer_ok :: "ext \<Rightarrow> event \<Rightarrow> run \<Rightarrow> bool" where
  "writer_ok X ev st \<longleftrightarrow>
     reserve_law X \<and> bm_wf (w_buf (r_conn st)) \<and> bm_data (w_buf (r_conn st)) = [] \<and>
     s_wr (r_sock st) = [] \<and> batch_ok (conn_r (r_conn st) @ ev_cmds ev) \<and>
     counters_ok X (length (conn_r (r_conn st) @ ev_cmds ev)) (r_conn st)"

lemma arrive_fields:
  "r_sock (arrive ev st) = r_sock st" "r_last_heartbeat (arrive ev st) = r_last_heartbeat st"
  "r_close (arrive ev st) = r_close st @ ev_close ev"
  "conn_r (r_conn (arrive ev st)) = conn_r (r_conn st) @ ev_cmds ev"
  "heartbeat (r_conn (arrive ev st)) = heartbeat (r_conn st)"
  "w_buf (r_conn (arrive ev st)) = w_buf (r_conn st)"
  "conn_s (r_conn (arrive ev st)) = conn_s (r_conn st)"
  by (simp_all add: arrive_def)

lemma wire_Nop: "cmd_ok Nop" "wire_cmd Nop = as_bytes ''NOP'' @ [10]"
  by (simp_all add: cmd_ok_def wire_cmd_def wire_line_def)

lemma answer_heartbeat_ok:
  assumes "reserve_law X" "bm_wf (w_buf (r_conn st))" "bm_data (w_buf (r_conn st)) = []"
    and "s_wr (r_sock st) = []"
  obtains b where "answer_heartbeat X ev st =
    Inr (if heartbeat (r_conn st)
      then st\<lparr>r_last_heartbeat := ev_now ev, r_conn := (r_conn st)\<lparr>w_buf := b, heartbeat := False\<rparr>,
             r_sock := (r_sock st)\<lparr>s_out := s_out (r_sock st) @ wire_cmd Nop\<rparr>\<rparr>
      else st)" "bm_wf b" "bm_data b = []"
proof -
  have "length (bm_data (w_buf (r_conn st))) + length (wire_cmd Nop) < 2 ^ 63"
    using assms(3) by (simp add: wire_Nop)
  then obtain b where "conn_write_cmd X Nop (r_conn st) = Inr ((r_conn st)\<lparr>w_buf := b\<rparr>)"
      "bm_wf b" "bm_data b = bm_data (w_buf (r_conn st)) @ wire_cmd Nop"
    by (rule conn_write_cmdE [OF assms(1,2) wire_Nop(1)])
  with assms(3,4) show ?thesis
    by (intro that [of "bm_clear b"]) (simp_all add: answer_heartbeat_def write_tcp_eq heartbeat_done_def)
qed

text \<open>What a writable event of a started connection does, in either loop.\<close>

lemma started_write:
  assumes "writer_ok X ev st0" "st = arrive ev st0"
  obtains c where "plain_started_write X ev st = Continue
      (st\<lparr>r_conn := c,
         r_sock := (r_sock st)\<lparr>s_out := s_out (r_sock st) @
           (if heartbeat (r_conn st) then wire_cmd Nop else []) @ wire_queue (conn_r (r_conn st))\<rparr>,
         r_last_heartbeat := (if heartbeat (r_conn st) then ev_now ev else r_last_heartbeat st),
         r_interest := Readable\<rparr>)"
    "conn_r c = []" "\<not> heartbeat c" "conn_state c = cstate st" "bm_data (w_buf c) = []"
proof -
  have st: "reserve_law X" "bm_wf (w_buf (r_conn st))" "bm_data (w_buf (r_conn st)) = []"
      "s_wr (r_sock st) = []" "batch_ok (conn_r (r_conn st))"
      "counters_ok X (length (conn_r (r_conn st))) (r_conn st)"
    using assms by (simp_all add: writer_ok_def arrive_def counters_ok_def)
  obtain b where b: "answer_heartbeat X ev st =
    Inr (if heartbeat (r_conn st)
      then st\<lparr>r_last_heartbeat := ev_now ev, r_conn := (r_conn st)\<lparr>w_buf := b, heartbeat := False\<rparr>,
             r_sock := (r_sock st)\<lparr>s_out := s_out (r_sock st) @ wire_cmd Nop\<rparr>\<rparr>
      else st)" "bm_wf b" "bm_data b = []"
    by (rule answer_heartbeat_ok [OF st(1-4)])
  let ?st1 = "if heartbeat (r_conn st)
      then st\<lparr>r_last_heartbeat := ev_now ev, r_conn := (r_conn st)\<lparr>w_buf := b, heartbeat := False\<rparr>,
             r_sock := (r_sock st)\<lparr>s_out := s_out (r_sock st) @ wire_cmd Nop\<rparr>\<rparr>
      else st"
  have "bm_wf (w_buf (r_conn ?st1))" "bm_data (w_buf (r_conn ?st1)) = []"
      "batch_ok (conn_r (r_conn ?st1))" "s_wr (r_sock ?st1) = []"
      "counters_ok X (length (conn_r (r_conn ?st1))) (r_conn ?st1)"
    using b st by (simp_all add: counters_ok_def)
  from write_messages_accepting [OF st(1) this(1,2,3,5,4), where clock = "ev_clock ev"]
  obtain c where "write_messages X (ev_clock ev) (r_conn ?st1) (r_sock ?st1) =
      Inr (c, (r_sock ?st1)\<lparr>s_out := s_out (r_sock ?st1) @ wire_queue (conn_r (r_conn ?st1))\<rparr>)"
      "conn_r c = []" "bm_data (w_buf c) = []" "heartbeat c = heartbeat (r_conn ?st1)"
      "conn_state c = cstate ?st1"
    by metis
  with b(1) show ?thesis
    by (intro that [of c]) (auto simp: plain_started_write_def flush_commands_def)
qed

lemma tls_started_write_same: "tls_started_write = plain_started_write"
  by (intro ext) (simp add: tls_started_write_def plain_started_write_def)

text \<open>
  C19: heartbeats are answered. On a started connection with an empty write buffer, whose socket
  accepts what is written, when the waiting commands fit the length fields and the counters have
  room for them (as many messages in flight at least, in a build that checks arithmetic), a writable
  event answers a heartbeat with exactly one NOP, ahead of the commands that wait, then sends those
  in the order in which they were queued, clears the heartbeat and the queue and restarts the
  heartbeat timer; with no heartbeat it sends the commands alone. The loops over the plain socket
  and over TLS do the same.
\<close>

theorem heartbeat_answered:
  assumes "writer_ok X ev st" "cstate st = SStarted" "ev_token ev = CONNECTION"
    and "\<not> ev_readable ev"
  shows "\<exists>st'. plain_event X ev st = Continue st' \<and> tls_event X ev st = Continue st' \<and>
    s_out (r_sock st') = s_out (r_sock st) @ (if heartbeat (r_conn st) then wire_cmd Nop else []) @
      wire_queue (conn_r (r_conn st) @ ev_cmds ev) \<and>
    \<not> heartbeat (r_conn st') \<and> conn_r (r_conn st') = [] \<and> cstate st' = SStarted \<and>
    r_last_heartbeat st' =
      (if heartbeat (r_conn st) then ev_now ev else r_last_heartbeat st) \<and>
    r_interest st' = Readable"
proof -
  have "plain_event X ev st = plain_started_write X ev (arrive ev st)"
      "tls_event X ev st = plain_started_write X ev (arrive ev st)"
    using assms(2-4)
    by (simp_all add: plain_event_def tls_event_def tls_started_write_same token_defs Let_def)
  moreover obtain c where "plain_started_write X ev (arrive ev st) = Continue
      ((arrive ev st)\<lparr>r_conn := c,
         r_sock := (r_sock st)\<lparr>s_out := s_out (r_sock st) @
           (if heartbeat (r_conn st) then wire_cmd Nop else []) @
           wire_queue (conn_r (r_conn st) @ ev_cmds ev)\<rparr>,
         r_last_heartbeat := (if heartbeat (r_conn st) then ev_now ev else r_last_heartbeat st),
         r_interest := Readable\<rparr>)"
      "conn_r c = []" "\<not> heartbeat c" "conn_state c = cstate st"
    by (rule started_write [OF assms(1) refl]) (simp add: arrive_fields cong: if_cong)
  ultimately show ?thesis using assms(2) by simp
qed

definition demo_run :: "state \<Rightarrow> rd_outcome list \<Rightarrow> run" where
  "demo_run s ins =
     run_start (demo_client ''t'' ''c'') (demo_world ins)
       (demo_conn\<lparr>conn_state := s, in_flight := 3\<rparr>) 0"

lemma demo_run_fields [simp]:
  "r_conn (demo_run s ins) = demo_conn\<lparr>conn_state := s, in_flight := 3\<rparr>"
  "r_sock (demo_run s ins) = demo_sock ins" "r_tls (demo_run s ins) = 0"
  "r_client (demo_run s ins) = demo_client ''t'' ''c''" "r_close (demo_run s ins) = []"
  "r_last_heartbeat (demo_run s ins) = 0" "r_info_open (demo_run s ins)"
  by (simp_all add: demo_run_def run_start_def demo_world_def)

theorem heartbeat_answered_witness:
  "let st = (demo_run SStarted [])\<lparr>r_conn := demo_conn\<lparr>conn_state := SStarted, in_flight := 3,
              heartbeat := True\<rparr>\<rparr>;
       ev = (wr_ev 7)\<lparr>ev_cmds := [as_cmd (Fin ''a'')]\<rparr> in
   \<exists>st'. plain_event demo_ext ev st = Continue st' \<and> r_last_heartbeat st' = 7 \<and>
     s_out (r_sock st') = as_bytes ''NOP'' @ [10] @ as_bytes ''FIN a'' @ [10]"
  using heartbeat_answered [of demo_ext "(wr_ev 7)\<lparr>ev_cmds := [as_cmd (Fin ''a'')]\<rparr>"
      "(demo_run SStarted [])\<lparr>r_conn := demo_conn\<lparr>conn_state := SStarted, in_flight := 3,
         heartbeat := True\<rparr>\<rparr>"]
  by (auto simp: Let_def writer_ok_def wr_ev_def batch_ok_def counters_ok_def wire_cmd_def
      wire_line_def cmd_ok_def demo_sock_def)

section \<open>Closing\<close>

lemma close_event:
  assumes "ev_token ev = CMD_TOKEN" "r_close st @ ev_close ev = 1 # rest"
  shows "plain_event X ev st =
      Done (send_close_msg ((arrive ev st)\<lparr>r_close := rest, r_shutdown := True\<rparr>))"
    "tls_event X ev st =
      Done (send_close_msg ((arrive ev st)\<lparr>r_close := rest, r_tls_shutdown := True\<rparr>))"
  using assms
  by (simp_all add: plain_event_def tls_event_def plain_close_def tls_close_def arrive_def Let_def)

text \<open>What is left on the close channel has arrived.\<close>

abbreviation closes :: "run \<Rightarrow> u32 set" where
  "closes st \<equiv> set (r_close st)"

lemma flush_commands_closes: "flush_commands X ev st = Inr st' \<Longrightarrow> r_close st' = r_close st"
  by (auto simp: flush_commands_def)

lemma answer_heartbeat_closes: "answer_heartbeat X ev st = Inr st' \<Longrightarrow> r_close st' = r_close st"
  by (auto simp: answer_heartbeat_def write_tcp_eq split: if_splits)

lemma expect_response_closes:
  "expect_response st = Inr (s, st') \<Longrightarrow> r_close st' = r_close st"
  by (auto simp: expect_response_def)

lemma auth_gate_closes: "flow_run (auth_gate st) = Some st' \<Longrightarrow> r_close st' = r_close st"
  by (auto simp: auth_gate_def set_state_def split: if_splits)

lemmas part_closes =
  flush_commands_closes answer_heartbeat_closes expect_response_closes auth_gate_closes

lemma response_closes:
  "flow_run (plain_response X st) = Some st' \<Longrightarrow> r_close st' = r_close st"
  "flow_run (tls_response X st) = Some st' \<Longrightarrow> r_close st' = r_close st"
  by (auto simp: plain_response_def tls_response_def flow_run_flow_of Let_def tls_enabled_def
      set_state_def split: state.splits if_splits dest!: part_closes)

lemma after_read_closes:
  assumes "flow_run (after_read h io st) = Some st'"
    and "\<And>st1. flow_run (h st) = Some st1 \<Longrightarrow> r_close st1 = r_close st"
  shows "r_close st' = r_close st"
proof (cases io)
  case (Inl e)
  with assms(1) show ?thesis by (auto simp: after_read_def read_failed_def split: if_splits)
next
  case (Inr n)
  with assms show ?thesis
    by (cases "h st") (auto simp: after_read_def response_done_def split: if_splits)
qed

lemma read_closes:
  assumes "flow_run (flow_of (read_tcp X (r_conn st) (r_sock st)) (\<lambda>(io, c, sk).
      after_read h io (st\<lparr>r_conn := c, r_sock := sk\<rparr>))) = Some st'"
    and "\<And>st st1. flow_run (h st) = Some st1 \<Longrightarrow> r_close st1 = r_close st"
  shows "r_close st' = r_close st"
  using assms(1) by (auto simp: flow_run_flow_of dest!: after_read_closes [OF _ assms(2)])

lemma reads_close:
  "flow_run (plain_read X st) = Some st' \<Longrightarrow> r_close st' = r_close st"
  "flow_run (tls_read X st) = Some st' \<Longrightarrow> r_close st' = r_close st"
  unfolding plain_read_def tls_read_def conn_read_def by (erule read_closes, erule response_closes)+

lemma close_closes:
  "flow_run (plain_close st) = Some st' \<Longrightarrow> closes st' \<subseteq> closes st"
  "flow_run (tls_close st) = Some st' \<Longrightarrow> closes st' \<subseteq> closes st"
  by (cases "r_close st"; auto simp: plain_close_def tls_close_def send_close_msg_def
      split: if_splits)+

lemma write_closes:
  "flow_run (plain_started_write X ev st) = Some st' \<Longrightarrow> r_close st' = r_close st"
  "flow_run (tls_started_write X ev st) = Some st' \<Longrightarrow> r_close st' = r_close st"
  "flow_run (plain_request X st) = Some st' \<Longrightarrow> r_close st' = r_close st"
  "flow_run (tls_request X st) = Some st' \<Longrightarrow> r_close st' = r_close st"
  by (auto simp: plain_started_write_def tls_started_write_def plain_request_def tls_request_def
      flow_run_flow_of send_request_def write_tcp_eq dest!: part_closes)

lemma event_closes:
  assumes "h = plain_event X \<or> h = tls_event X" "flow_run (h ev st) = Some st'"
  shows "closes st' \<subseteq> closes st \<union> set (ev_close ev)"
proof -
  have "closes st' \<subseteq> closes (arrive ev st)"
    using assms
    by (auto simp: plain_event_def tls_event_def Let_def flow_run_flow_of split: if_splits
        dest!: reads_close write_closes part_closes close_closes simp del: subset_code(1) del: subsetI)
  then show ?thesis by (auto simp: arrive_def)
qed

text \<open>
  The only way \<open>run\<close> returns: a close command has been taken off the channel, and the stream has
  been shut down, which is the TLS stream when the loop over TLS has been entered.
\<close>

definition shut_down :: "run \<Rightarrow> bool" where
  "shut_down st \<longleftrightarrow> (if r_tls st = 1 then r_tls_shutdown st else r_shutdown st)"

definition closed_by :: "u32 set \<Rightarrow> run \<Rightarrow> bool" where
  "closed_by ns st \<longleftrightarrow> 1 \<in> ns \<and> shut_down st \<and>
     (\<exists>sent. conn_s (r_conn st) = sent @ [BytesMsg 0 []])"

text \<open>\<open>h\<close> handles the events of the loop that is running in \<open>st\<close>.\<close>

definition loop_of :: "ext \<Rightarrow> (event \<Rightarrow> run \<Rightarrow> flow) \<Rightarrow> run \<Rightarrow> bool" where
  "loop_of X h st \<longleftrightarrow> (if r_tls st = 1 then h = tls_event X else h = plain_event X)"

lemma loop_of_events: "loop_of X h st \<Longrightarrow> h = plain_event X \<or> h = tls_event X"
  by (simp add: loop_of_def split: if_splits)

lemma loop_of_Continue: "loop_of X h st \<Longrightarrow> h ev st = Continue st' \<Longrightarrow> loop_of X h st'"
  using plain_event_keeps_phase [of st X ev st'] tls_event_keeps_phase [of st X ev st']
  by (auto simp: loop_of_def split: if_splits)

lemma not_Done:
  "response_done f \<noteq> Done st \<longleftrightarrow> f \<noteq> Done st" "flow_of m Continue \<noteq> Done st"
  "auth_gate st1 \<noteq> Done st"
  by (cases f; simp add: response_done_def) (cases m; simp add: auth_gate_def)+

lemma flow_of_Done: "flow_of m f = Done st \<longleftrightarrow> (\<exists>a. m = Inr a \<and> f a = Done st)"
  by (cases m) auto

lemma response_not_Done [simp]: "plain_response X st \<noteq> Done st'" "tls_response X st \<noteq> Done st'"
  by (auto simp: plain_response_def tls_response_def flow_of_Done Let_def auth_gate_def
      tls_enabled_def split: state.splits if_splits)

lemma read_not_Done [simp]: "plain_read X st \<noteq> Done st'" "tls_read X st \<noteq> Done st'"
  by (auto simp: plain_read_def tls_read_def flow_of_Done after_read_def read_failed_def
      response_done_def split: sum.splits if_splits flow.splits)

lemma event_Done:
  assumes "loop_of X h st" "h ev st = Done st'"
  shows "ev_token ev = CMD_TOKEN \<and> closed_by (closes st \<union> set (ev_close ev)) st'"
proof -
  have "ev_token ev = CMD_TOKEN \<and> closed_by (closes (arrive ev st)) st'"
    using assms
    by (cases "r_close (arrive ev st)")
      (auto simp: loop_of_def shut_down_def plain_event_def tls_event_def plain_close_def tls_close_def Let_def flow_of_Done
        plain_request_def tls_request_def plain_started_write_def tls_started_write_def
        closed_by_def send_close_msg_def ch_send_def split: if_splits)
  then show ?thesis by (simp add: arrive_fields)
qed

text \<open>The events of the polls and the close commands they bring.\<close>

fun poll_events :: "poll \<Rightarrow> event list" where
  "poll_events PollErr = []"
| "poll_events (PollOk t evs) = evs"

definition all_events :: "poll list \<Rightarrow> event list" where
  "all_events ps = concat (map poll_events ps)"

definition arrived :: "event list \<Rightarrow> u32 set" where
  "arrived evs = \<Union> (set ` ev_close ` set evs)"

lemma arrived_simps [simp]:
  "arrived [] = {}" "arrived (ev # evs) = set (ev_close ev) \<union> arrived evs"
  "arrived (evs @ evs') = arrived evs \<union> arrived evs'"
  "all_events [] = []" "all_events (p # ps) = poll_events p @ all_events ps"
  by (auto simp: arrived_def all_events_def)

definition close_seen :: "run \<Rightarrow> event list \<Rightarrow> run \<Rightarrow> bool" where
  "close_seen st evs st' \<longleftrightarrow> closed_by (closes st \<union> arrived evs) st' \<and>
     (\<exists>ev \<in> set evs. ev_token ev = CMD_TOKEN)"

lemma closed_by_mono: "closed_by ns st \<Longrightarrow> ns \<subseteq> ns' \<Longrightarrow> closed_by ns' st"
  by (auto simp: closed_by_def)

lemma close_seen_later:
  "close_seen st1 evs st' \<Longrightarrow> closes st1 \<subseteq> closes st \<union> arrived evs0 \<Longrightarrow>
     close_seen st (evs0 @ evs) st'"
  unfolding close_seen_def by (auto elim!: closed_by_mono)

lemma run_events_closes:
  assumes "h = plain_event X \<or> h = tls_event X" "run_events h evs st = f" "flow_run f = Some st'"
  shows "closes st' \<subseteq> closes st \<union> arrived evs"
  using assms(2,3)
proof (induction evs arbitrary: st)
  case (Cons ev evs)
  from Cons.prems Cons.IH event_closes [OF assms(1), of ev st] show ?case
    by (cases "h ev st") fastforce+
qed auto

lemma run_events_Done:
  "loop_of X h st \<Longrightarrow> run_events h evs st = Done st' \<Longrightarrow> close_seen st evs st'"
proof (induction evs arbitrary: st)
  case (Cons ev evs)
  note h = loop_of_events [OF Cons.prems(1)]
  show ?case
  proof (cases "h ev st")
    case (Continue st1)
    with Cons loop_of_Continue [OF Cons.prems(1)] have "close_seen st1 evs st'" by simp
    then show ?thesis
      using close_seen_later [of st1 evs st' st "[ev]"] event_closes [OF h, of ev st st1]
        Continue by simp
  next
    case (Done st1)
    with Cons.prems have "st1 = st'" by simp
    with Done event_Done [OF Cons.prems(1), of ev st1] show ?thesis
      by (auto simp: close_seen_def intro: closed_by_mono)
  qed (use Cons.prems in auto)
qed simp

lemma tls_loop_Done:
  "r_tls st = 1 \<Longrightarrow> tls_loop X ps st = Done st' \<Longrightarrow> close_seen st (all_events ps) st'"
proof (induction ps arbitrary: st)
  case (Cons p ps)
  then obtain t evs where p: "p = PollOk t evs" by (cases p) (auto simp: tls_round_def)
  have h: "loop_of X (tls_event X) st" using Cons.prems(1) by (simp add: loop_of_def)
  show ?case
  proof (cases "tls_round X p st")
    case (Continue st1)
    with tls_round_steps [OF Cons.prems(1), of X p st1] have "r_tls st1 = 1" by simp
    with Continue Cons p run_events_closes [of "tls_event X" X evs st "Continue st1" st1] show ?thesis
      by (auto simp: tls_round_def intro: close_seen_later)
  next
    case (Done st1)
    with Cons.prems p run_events_Done [OF h, of evs st1] show ?thesis
      by (auto simp: tls_round_def close_seen_def intro: closed_by_mono)
  qed (use Cons.prems in auto)
qed simp

lemma enter_tls_Done:
  "r_tls st = 1 \<Longrightarrow> enter_tls X W ps st = Done st' \<Longrightarrow> close_seen st (all_events ps) st'"
  using tls_loop_Done [of "st\<lparr>r_interest := Readable\<rparr>" X ps st']
  by (auto simp: enter_tls_def close_seen_def split: if_splits option.splits)

lemma run_loop_Done: "run_loop X W ps st = Done st' \<Longrightarrow> close_seen st (all_events ps) st'"
proof (induction ps arbitrary: st)
  case Nil
  then show ?case by (auto split: if_splits dest: enter_tls_Done)
next
  case (Cons p ps)
  show ?case
  proof (cases "r_tls st = 1")
    case True
    with Cons.prems enter_tls_Done [of st X W "p # ps" st'] show ?thesis by simp
  next
    case False
    with Cons.prems obtain t evs where p: "p = PollOk t evs"
      by (cases p) (auto simp: plain_round_def)
    have now: "closes (check_heartbeat t st) = closes st"
      by (simp add: check_heartbeat_def send_close_msg_def)
    have h: "loop_of X (plain_event X) (check_heartbeat t st)" using False by (simp add: loop_of_def)
    show ?thesis
    proof (cases "plain_round X p st")
      case (Continue st1)
      with False Cons p now
        run_events_closes [of "plain_event X" X evs "check_heartbeat t st" "Continue st1" st1]
      show ?thesis by (auto simp: plain_round_def intro: close_seen_later)
    next
      case (Done st1)
      with False Cons.prems p now run_events_Done [OF h, of evs st1]
      show ?thesis by (auto simp: plain_round_def close_seen_def intro: closed_by_mono)
    qed (use False Cons.prems in auto)
  qed
qed

definition close_ev :: event where
  "close_ev = \<lparr>ev_token = CMD_TOKEN, ev_readable = True, ev_now = 1, ev_clock = (\<lambda>i. 0),
     ev_cmds = [], ev_close = [1]\<rparr>"

text \<open>
  C20: \<open>run\<close> returns \<open>Ok\<close> only because it has been told to. If it does, a close command has
  arrived, an event of the command handler has taken it, the stream has been told to shut down
  (the socket, or the TLS session once the loop over TLS has been entered), and the last thing
  the readers have been sent is the message that tells them to stop; no failure of the server,
  the socket or the protocol makes \<open>run\<close> return normally.
\<close>

theorem run_returns_only_after_close:
  assumes "client_run X cl W polls = Done st"
  shows "1 \<in> arrived (all_events polls) \<and> (\<exists>ev \<in> set (all_events polls). ev_token ev = CMD_TOKEN) \<and>
    (if r_tls st = 1 then r_tls_shutdown st else r_shutdown st) \<and>
    (\<exists>sent. conn_s (r_conn st) = sent @ [BytesMsg 0 []])"
proof -
  obtain c a where "run_loop X W polls (run_start cl W c a) = Done st"
    using assms
    by (cases "fst (connect (w_lookup W) (w_net W) (w_backoff W))")
      (auto simp: client_run_def flow_of_Done Let_def split: if_splits)
  from run_loop_Done [OF this] show ?thesis
    by (auto simp: close_seen_def closed_by_def shut_down_def run_start_def)
qed

theorem run_returns_only_after_close_witness:
  "\<exists>st. client_run (demo_x False) (demo_client ''t'' ''c'') (demo_world []) [PollOk 1 [close_ev]] =
      Done st \<and> r_shutdown st \<and> last (conn_s (r_conn st)) = BytesMsg 0 []"
proof -
  let ?c = "conn_new (demo_x False) (config_default None) [] [] [] 0"
  have "\<exists>b. write_magic (demo_x False) VERSION (w_buf ?c) = Inr b"
    using write_magic_appends [of "demo_x False" "w_buf ?c" VERSION]
    by (auto simp: demo_x_def conn_new_def bm_new_def bm_wf_def VERSION_def)
  then obtain st0 where
      "\<And>ps. client_run (demo_x False) (demo_client ''t'' ''c'') (demo_world []) ps =
        run_loop (demo_x False) (demo_world []) ps st0"
      "r_tls st0 = 0" "r_close (check_heartbeat 1 st0) = []"
    by (auto simp: client_run_def demo_world_def demo_client_def client_new_def
        magic_def run_start_def check_heartbeat_def send_close_msg_def Let_def)
  then obtain st where "client_run (demo_x False) (demo_client ''t'' ''c'') (demo_world [])
      [PollOk 1 [close_ev]] = Done st" "r_shutdown st"
    using close_event(1) [of close_ev "check_heartbeat 1 st0" "[]" "demo_x False"]
    by (simp add: plain_round_def close_ev_def send_close_msg_def)
  with run_returns_only_after_close [OF this(1)] show ?thesis by (auto split: if_splits)
qed

text \<open>
  A close command ends the client at any time, in every state of the handshake and in both
  loops: the next event of the command handler shuts the socket or the TLS session down, sends the readers the
  message that tells them to stop and returns.
\<close>

lemma close_command_ends_run:
  assumes "ev_token ev = CMD_TOKEN" "r_close st @ ev_close ev = 1 # rest"
  shows "plain_round X (PollOk t (ev # evs)) st =
      Done (send_close_msg ((arrive ev (check_heartbeat t st))\<lparr>r_close := rest, r_shutdown := True\<rparr>))
    \<and> tls_round X (PollOk t (ev # evs)) st =
      Done (send_close_msg ((arrive ev st)\<lparr>r_close := rest, r_tls_shutdown := True\<rparr>))"
proof -
  have "r_close (check_heartbeat t st) @ ev_close ev = 1 # rest"
    using assms(2) by (simp add: check_heartbeat_def send_close_msg_def)
  then show ?thesis
    using assms by (simp add: plain_round_def tls_round_def close_event)
qed

lemma close_command_ends_run_example:
  "\<exists>st. plain_round demo_ext (PollOk 1 [close_ev]) (demo_run SAuth []) = Done st \<and>
    conn_s (r_conn st) = [BytesMsg 0 []] \<and> r_shutdown st"
  using close_command_ends_run [of close_ev "demo_run SAuth []" "[]" demo_ext 1 "[]"]
  by (simp add: close_ev_def send_close_msg_def arrive_def check_heartbeat_def ch_send_def
      HEARTBEAT_TIMEOUT_def demo_conn_def conn_new_def)

section \<open>The heartbeat timer\<close>

abbreviation late :: "run \<Rightarrow> nat list \<Rightarrow> nat list" where
  "late st ts \<equiv> filter (\<lambda>t. HEARTBEAT_TIMEOUT < t - r_last_heartbeat st) ts"

text \<open>
  A missed heartbeat does not end the client. While the plain loop only polls, every poll
  that returns more than 45 seconds after the last heartbeat sends the readers one more stop
  message, one each time, and changes nothing else: the loop and the connection stay as they
  are. The TLS loop does not look at the timer at all.
\<close>

lemma late_heartbeat_only_signals:
  assumes "r_tls st = 0"
  shows "run_loop X W (map (\<lambda>t. PollOk t []) ts) st =
      Continue (st\<lparr>r_conn := (r_conn st)\<lparr>conn_s := conn_s (r_conn st) @
        replicate (length (late st ts)) (BytesMsg 0 [])\<rparr>\<rparr>) \<and>
    tls_loop X (map (\<lambda>t. PollOk t []) ts) st = Continue st"
proof -
  have "run_loop X W (map (\<lambda>t. PollOk t []) ts) st =
      Continue (st\<lparr>r_conn := (r_conn st)\<lparr>conn_s := conn_s (r_conn st) @
        replicate (length (late st ts)) (BytesMsg 0 [])\<rparr>\<rparr>)"
    using assms
  proof (induction ts arbitrary: st)
    case (Cons t ts)
    then show ?case
      by (simp add: plain_round_def check_heartbeat_def send_close_msg_def ch_send_def)
  qed simp
  moreover have "tls_loop X (map (\<lambda>t. PollOk t []) ts) st = Continue st"
    by (induction ts) (simp_all add: tls_round_def)
  ultimately show ?thesis by blast
qed

lemma late_heartbeat_only_signals_example:
  "run_loop demo_ext (demo_world []) (map (\<lambda>t. PollOk t []) [1, 45 * 10 ^ 9 + 1, 50 * 10 ^ 9]) (demo_run SStarted []) =
    Continue ((demo_run SStarted [])\<lparr>r_conn := demo_conn\<lparr>conn_state := SStarted, in_flight := 3,
      conn_s := [BytesMsg 0 [], BytesMsg 0 []]\<rparr>\<rparr>)"
  using late_heartbeat_only_signals [of "demo_run SStarted []" demo_ext "demo_world []" "[1, 45 * 10 ^ 9 + 1, 50 * 10 ^ 9]"]
  by (simp add: HEARTBEAT_TIMEOUT_def demo_conn_def conn_new_def numeral_2_eq_2)

section \<open>Reads that fail\<close>

text \<open>
  A read that fails. When a started or starting connection is readable but the read would
  block (as spurious readiness makes it), the client reports the connection as lost although it
  is not, and goes on; the end of the stream is not reported at all; any other error panics.
  Neither loop moves the state of the connection, so in no case is the connection closed or
  opened again.
\<close>

lemma failed_reads:
  assumes "ev_token ev = CONNECTION" "ev_readable ev" "r_info_open st"
    and "need_response (r_conn st) = False"
  shows "(case s_in (r_sock st) of
      RdErr OtherIoErr # ins \<Rightarrow>
        plain_event X ev st = Panic ExplicitPanic \<and> tls_event X ev st = Panic ExplicitPanic
    | RdErr WouldBlock # ins \<Rightarrow>
        (\<exists>st'. plain_event X ev st = Break st' \<and> tls_event X ev st = Break st' \<and>
           s_info (r_conn st') = s_info (r_conn st) @
             [IsConnected \<lparr>info_connected = False, info_last_time = 0\<rparr>] \<and>
           cstate st' = cstate st \<and> s_in (r_sock st') = ins)
    | RdEof # ins \<Rightarrow>
        (\<exists>st'. plain_event X ev st = Break st' \<and> tls_event X ev st = Break st' \<and>
           s_info (r_conn st') = s_info (r_conn st) \<and> cstate st' = cstate st \<and>
           conn_s (r_conn st') = conn_s (r_conn st) \<and> s_in (r_sock st') = ins)
    | _ \<Rightarrow> True)"
proof -
  have tok: "plain_event X ev st = plain_read X (arrive ev st)"
      "tls_event X ev st = tls_read X (arrive ev st)"
    using assms(1,2) by (simp_all add: plain_event_def tls_event_def token_defs Let_def)
  show ?thesis
  proof (cases "s_in (r_sock st)")
    case (Cons o1 ins)
    with assms(3,4) show ?thesis
      by (cases o1)
        (auto simp: tok plain_read_def tls_read_def read_tcp_def sock_read_def arrive_def
          after_read_def read_failed_def ch_send_def split: io_err.splits)
  qed simp
qed

lemma failed_reads_example:
  "\<exists>st'. plain_event demo_ext (rd_ev 1) (demo_run SStarted [RdErr WouldBlock]) = Break st' \<and>
     s_info (r_conn st') = [IsConnected \<lparr>info_connected = False, info_last_time = 0\<rparr>]"
  using failed_reads [of "rd_ev 1" "demo_run SStarted [RdErr WouldBlock]" demo_ext]
  by (auto simp: rd_ev_def demo_sock_def demo_conn_def conn_new_def)

section \<open>Handshakes that fail\<close>

lemma read_text:
  assumes "utf8_valid (as_bytes r)" "length r + 8 < 2 ^ 31"
    and "length r + 8 \<le> unat (output_buffer_size (conn_config c))" "r_buf c = []"
    and "s_in sk = RdData (enc_frame (ty, as_bytes r)) # ins" "ty \<noteq> FRAME_TYPE_MESSAGE"
  shows "read_tcp X c sk =
    Inr (Inr (length r + 8), frames_effect [(ty, as_bytes r)] c, sk\<lparr>s_in := ins\<rparr>)"
proof -
  let ?bs = "enc_frame (ty, as_bytes r)"
  have len: "length ?bs = length r + 8" by (simp add: enc_frame_def)
  have rd: "sock_read (unat (output_buffer_size (conn_config c))) sk = (Inr ?bs, sk\<lparr>s_in := ins\<rparr>)"
    using assms(3,5) len by (simp add: sock_read_def)
  have "c\<lparr>r_buf := []\<rparr> = c" using assms(4) by simp
  moreover have "feed X ?bs c = Inr (frames_effect [(ty, as_bytes r)] (c\<lparr>r_buf := []\<rparr>))"
    by (rule feed_frames)
      (use assms len unsigned_less [of "in_flight c", where ?'a = nat] in
        \<open>simp_all add: frame_fits_def waits_def frames_ok_def\<close>)
  moreover have "?bs \<noteq> []" using len by force
  ultimately show ?thesis using rd len by (simp add: read_tcp_feed)
qed

lemma response_panics:
  "expect_response st = Inl p \<Longrightarrow> cstate st \<in> {SIdentify, SAuth, SSubscribe} \<Longrightarrow>
     plain_response X st = Panic p"
  by (auto simp: plain_response_def)

text \<open>
  C33: during the handshake anything but a response kills the client. If nsqd answers a request
  of the plain handshake with a heartbeat, which it may send at any time, or with an error
  frame, the client panics on an \<open>unwrap\<close> instead of answering the heartbeat or reporting
  the error.
\<close>

theorem handshake_panics:
  assumes "hs_at cl nc 0 t s w out (RdData (enc_frame (ty, as_bytes e)) # ins) st"
    and "s \<in> {SIdentify, SAuth, SSubscribe}" "valid_str e" "length e + 8 < 2 ^ 31"
    and "length e + 8 \<le> unat (output_buffer_size (cl_config cl))"
    and "if e = HEARTBEAT then ty \<noteq> FRAME_TYPE_MESSAGE else ty = FRAME_TYPE_ERROR"
  shows "plain_round X (rd_poll t) st = Panic (if e = HEARTBEAT then UnwrapNone else UnwrapErr)"
proof -
  have st: "conn_config (r_conn st) = cl_config cl" "r_buf (r_conn st) = []"
      "s_in (r_sock st) = RdData (enc_frame (ty, as_bytes e)) # ins" "cstate st = s"
      "responses (r_conn st) = []" "check_heartbeat t st = st"
    using assms(1) by (simp_all add: hs_at_def check_heartbeat_def)
  have ty: "ty \<noteq> FRAME_TYPE_MESSAGE" using assms(6) by (auto simp: codec_consts split: if_splits)
  have valid: "utf8_valid (as_bytes e)" "from_utf8 (as_bytes e) = Some e"
    using assms(3) by (simp_all add: valid_str_def from_utf8_as_bytes)
  have rd: "read_tcp X (r_conn st) (r_sock st) = Inr (Inr (length e + 8),
      frames_effect [(ty, as_bytes e)] (r_conn st), (r_sock st)\<lparr>s_in := ins\<rparr>)"
    by (rule read_text) (use st assms(4,5) valid ty in simp_all)
  have "answer_of (ty, as_bytes e) = (if e = HEARTBEAT then None else Some (RError e))"
    using ty assms(6) valid(2) by (simp add: answer_of_def codec_consts split: if_splits)
  then have resp: "responses (frames_effect [(ty, as_bytes e)] (r_conn st)) =
      (if e = HEARTBEAT then [] else [RError e])"
      "conn_state (frames_effect [(ty, as_bytes e)] (r_conn st)) = s"
    using st by (simp_all add: frames_effect_def List.map_filter_simps)
  let ?st = "st\<lparr>r_conn := frames_effect [(ty, as_bytes e)] (r_conn st),
    r_sock := (r_sock st)\<lparr>s_in := ins\<rparr>\<rparr>"
  have ex: "expect_response ?st = Inl (if e = HEARTBEAT then UnwrapNone else UnwrapErr)"
    using resp(1) by (simp add: expect_response_def conn_get_response_def)
  have "plain_response X ?st = Panic (if e = HEARTBEAT then UnwrapNone else UnwrapErr)"
    by (rule response_panics [OF ex]) (use assms(2) resp(2) in simp)
  then show ?thesis
    using st(6) resp(2) assms(2)
    by (auto simp: plain_round_def rd_poll_def plain_event_rd plain_read_def rd after_read_def
        response_done_def)
qed

theorem handshake_panics_witness:
  "plain_round demo_ext (rd_poll 1)
     (demo_run SIdentify [RdData (enc_frame (FRAME_TYPE_RESPONSE, as_bytes HEARTBEAT))]) =
     Panic UnwrapNone"
proof -
  have "hs_at (demo_client ''t'' ''c'') nsqd_config_default 0 1 SIdentify [] []
      (RdData (enc_frame (FRAME_TYPE_RESPONSE, as_bytes HEARTBEAT)) # [])
      (demo_run SIdentify [RdData (enc_frame (FRAME_TYPE_RESPONSE, as_bytes HEARTBEAT))])"
    by (simp add: hs_at_def HEARTBEAT_TIMEOUT_def demo_sock_def demo_conn_def conn_new_def
        demo_client_def client_new_def bm_new_def bm_wf_def) (simp add: demo_run_def run_start_def)
  from handshake_panics [OF this] show ?thesis
    by (simp add: valid_str_def HEARTBEAT_def utf8_ranges_def codec_consts demo_client_def
        client_new_def config_default_def)
qed

text \<open>
  Authentication that cannot be done ends the process. If nsqd requires it and the client
  has no secret, the client exits with code 1 right after the answer to IDENTIFY, having sent
  nothing but the version and IDENTIFY.
\<close>

lemma missing_secret_exits:
  assumes "asking X cl W t j (RdData (answer r) # ins)" "good_answer cl r"
    and "x_nsqd_json X r = Some nc" "nsqd_auth_required nc" "\<not> nsqd_tls_v1 nc"
    and "cl_secret cl = None"
  shows "client_run X cl W (wr_poll t # rd_poll t # ps) = Exit 1 \<and>
    (\<exists>st. client_run X cl W [wr_poll t] = Continue st \<and>
       s_out (r_sock st) = as_bytes VERSION @ wire_cmd (Identify j))"
proof -
  obtain st where st: "\<And>ps. client_run X cl W (wr_poll t # ps) = run_loop X W ps st"
      "hs_at cl nsqd_config_default 0 t SIdentify []
         (as_bytes VERSION @ wire_cmd (Identify j)) (RdData (answer r) # ins) st"
    by (rule session_asked [OF assms(1)]) auto
  have at: "cstate st = SIdentify" "check_heartbeat t st = st" "r_client st = cl" "r_tls st = 0"
      "s_out (r_sock st) = as_bytes VERSION @ wire_cmd (Identify j)"
    using st(2) by (simp_all add: hs_at_def check_heartbeat_def)
  have rd: "read_tcp X (r_conn st) (r_sock st) = Inr (Inr (length r + 8),
      (r_conn st)\<lparr>responses := [Response r]\<rparr>, (r_sock st)\<lparr>s_in := ins\<rparr>)"
    using read_answer [of cl r "r_conn st" "r_sock st" ins X] assms(2) st(2)
    by (simp add: hs_at_def)
  have "plain_round X (rd_poll t) st = Exit 1"
    using at assms(3-6)
    by (simp add: plain_round_def rd_poll_def plain_event_rd plain_read_def rd after_read_def
        plain_response_def expect_response_def conn_get_response_def auth_gate_def
        response_done_def)
  then show ?thesis using at(4,5) by (simp add: st(1))
qed

lemma missing_secret_exits_example:
  "client_run (demo_x False) ((demo_client ''t'' ''c'')\<lparr>cl_secret := None\<rparr>)
     (demo_world [RdData (answer ''{}'')]) [wr_poll 1, rd_poll 1] = Exit 1"
proof -
  let ?cl = "(demo_client ''t'' ''c'')\<lparr>cl_secret := None\<rparr>"
  have "asking (demo_x False) ?cl (demo_world [RdData (answer ''{}'')]) 1 ''{}'' [RdData (answer ''{}'')]"
    "good_answer ?cl ''{}''"
    using demo_asking [of False "''t''" "''c''" "[RdData (answer ''{}'')]" 1]
      demo_good_answers(2) [of "''t''" "''c''"]
    by (simp_all add: HEARTBEAT_TIMEOUT_def good_answer_def asking_def demo_x_def)
  then show ?thesis
    using missing_secret_exits [of "demo_x False" ?cl "demo_world [RdData (answer ''{}'')]" 1
        "''{}''" "''{}''" "[]" "demo_nsqd False" "[]"]
    by (simp add: demo_x_def)
qed

section \<open>Commands that arrive early\<close>

text \<open>An event of the waker for commands, with one command waiting.\<close>

definition cmd_ev :: "nat \<Rightarrow> cmd \<Rightarrow> event" where
  "cmd_ev t m = \<lparr>ev_token = CLIENT_TOKEN, ev_readable = False, ev_now = t, ev_clock = (\<lambda>i. 0),
     ev_cmds = [m], ev_close = []\<rparr>"

text \<open>
  C34: the waker does not wait for the handshake. A command that is sent before the socket has
  become writable is written right after the version bytes, so the server sees it before
  IDENTIFY; a checked build panics instead, because no message is in flight.
\<close>

theorem early_command_overtakes_identify:
  assumes "reserve_law X" "world_ready W ins" "t - w_now W \<le> HEARTBEAT_TIMEOUT"
    and "batch_ok [m]" "length (wire_cmd (RawCmd m)) < 2 ^ 62" "cl_cmd_channel cl = []"
  shows "if overflow_checks X
    then client_run X cl W (PollOk t [cmd_ev t m] # ps) = Panic ArithmeticOverflow
    else \<exists>st. client_run X cl W (PollOk t [cmd_ev t m] # ps) = run_loop X W ps st \<and>
       cstate st = SIdentify \<and>
       s_out (r_sock st) = as_bytes VERSION @ wire_cmd (RawCmd m)"
proof -
  let ?c = "conn_new X (cl_config cl) [] (cl_msg_channel cl) [] (cl_msg_timeout cl)"
  obtain b where b: "write_magic X VERSION (w_buf ?c) = Inr b" "bm_wf b" "bm_data b = as_bytes VERSION"
    using write_magic_appends [OF assms(1), of "w_buf ?c" VERSION]
    by (auto simp: conn_new_def bm_new_def bm_wf_def VERSION_def)
  obtain a where a: "fst (connect (w_lookup W) (w_net W) (w_backoff W)) = Stream a"
      "w_stream W a = \<lparr>s_in = ins, s_wr = [], s_out = []\<rparr>"
    using assms(2) by (auto simp: world_ready_def split: connect_result.splits)
  let ?c1 = "?c\<lparr>w_buf := b, conn_state := SIdentify\<rparr>"
  let ?st = "run_start cl W ?c1 a"
  have run: "client_run X cl W ps = run_loop X W ps ?st" for ps
    using assms(2,6) a(1) b(1) by (simp add: client_run_def Let_def magic_def world_ready_def)
  have "bm_wf (w_buf ?c1)" "cmd_ok (RawCmd m)"
      "length (bm_data (w_buf ?c1)) + length (wire_cmd (RawCmd m)) < 2 ^ 63"
    using b assms(4,5) by (simp_all add: batch_ok_def VERSION_def)
  then obtain b' where b': "conn_write_cmd X (RawCmd m) (?c1\<lparr>conn_r := []\<rparr>) =
      Inr (?c1\<lparr>conn_r := [], w_buf := b'\<rparr>)" "bm_data b' = as_bytes VERSION @ wire_cmd (RawCmd m)"
    using conn_write_cmdE [OF assms(1), of "?c1\<lparr>conn_r := []\<rparr>" "RawCmd m"] b(3) by auto
  have flush: "write_messages X (\<lambda>i. 0) (?c1\<lparr>conn_r := [m]\<rparr>) (w_stream W a) =
      (if overflow_checks X then Inl ArithmeticOverflow
       else Inr (?c1\<lparr>conn_r := [], w_buf := bm_clear b', last_time_sent := 0, in_flight := - 1,
           processed := 1\<rparr>, (w_stream W a)\<lparr>s_out := as_bytes VERSION @ wire_cmd (RawCmd m)\<rparr>))"
    using b' a(2) by (simp add: write_messages_def write_tcp_eq sub_u32_def add_u32_def conn_new_def)
  have start: "r_tls ?st = 0" "check_heartbeat t ?st = ?st" "r_sock ?st = w_stream W a"
      "arrive (cmd_ev t m) ?st = ?st\<lparr>r_conn := ?c1\<lparr>conn_r := [m]\<rparr>\<rparr>"
    using assms(3) by (simp_all add: run_start_def check_heartbeat_def arrive_def cmd_ev_def conn_new_def)
  have ev: "plain_event X (cmd_ev t m) ?st =
      flow_of (flush_commands X (cmd_ev t m) (?st\<lparr>r_conn := ?c1\<lparr>conn_r := [m]\<rparr>\<rparr>)) Continue"
    by (simp add: plain_event_def Let_def start(4)) (simp add: cmd_ev_def token_defs)
  have clock: "ev_clock (cmd_ev t m) = (\<lambda>i. 0)" by (simp add: cmd_ev_def)
  show ?thesis
    using flush
    by (simp add: run start(1,2,3) plain_round_def ev flush_commands_def clock split: if_splits)
      (intro exI conjI, rule refl, simp_all)
qed

theorem early_command_overtakes_identify_witness:
  "client_run (demo_x False) (demo_client ''t'' ''c'') (demo_world [])
     [PollOk 1 [cmd_ev 1 (as_cmd Nop)]] = Panic ArithmeticOverflow"
  using early_command_overtakes_identify [of "demo_x False" "demo_world []" "[]" 1 "as_cmd Nop"
      "demo_client ''t'' ''c''" "[]"]
  by (simp add: demo_x_def world_ready_def demo_world_def demo_sock_def
      HEARTBEAT_TIMEOUT_def batch_ok_def demo_client_def client_new_def wire_cmd_def
      wire_line_def cmd_ok_def)

section \<open>Connecting over TLS\<close>

text \<open>
  The TLS connect loop retries exactly while the handshake would block: it ends with the
  first other outcome, so it ends if and only if there is one, and the outcomes after it are
  not used.
\<close>

lemma tls_connect_first_outcome:
  "tls_connect hs =
     (case dropWhile (\<lambda>h. h = HsWouldBlock) hs of [] \<Rightarrow> None | h # _ \<Rightarrow> Some (h = HsOk))"
  by (induction hs rule: tls_connect.induct) simp_all

text \<open>
  The certificate is checked against the host of the address. For an address of the form
  host, colon, port the name given to the TLS connector is the host; an IPv6 address in
  brackets is cut at its first colon.
\<close>

lemma tls_domain_is_host:
  assumes "CHR '':'' \<notin> set host"
  shows "tls_domain (host @ '':'' @ port) = host \<and> tls_domain (''['' @ host @ '':'' @ rest) = ''['' @ host"
proof -
  have "takeWhile (\<lambda>ch. ch \<noteq> CHR '':'') (host @ '':'' @ r) = host" for r
    using assms by (subst takeWhile_append2) auto
  then show ?thesis by (simp add: tls_domain_def)
qed

section \<open>The handshake as a state machine\<close>

text \<open>A run about to send RDY, and its one step to the started state.\<close>

lemma demo_rdy_round:
  obtains st' where "plain_round demo_ext (wr_poll 1) (demo_run SRdy []) = Continue st'"
    "cstate st' = SStarted" "r_tls st' = 0"
proof -
  have "hs_at (demo_client ''t'' ''c'') nsqd_config_default 0 1 SRdy [] [] [] (demo_run SRdy [])"
    by (simp add: hs_at_def HEARTBEAT_TIMEOUT_def demo_sock_def demo_conn_def conn_new_def
        demo_client_def client_new_def bm_new_def bm_wf_def) (simp add: demo_run_def run_start_def)
  moreover have "hs_command demo_ext (demo_client ''t'' ''c'') SRdy = Some (Rdy 5)"
    "cmd_ok (Rdy 5)" "length ([] :: bytes) + length (wire_cmd (Rdy 5)) < 2 ^ 63"
    using demo_small_cmds(4) by (simp_all add: hs_command_def small_cmd_def)
  ultimately obtain st' where "plain_round demo_ext (wr_poll 1) (demo_run SRdy []) = Continue st'"
      "hs_at (demo_client ''t'' ''c'') nsqd_config_default 0 1 (hs_sent SRdy) []
        ([] @ [] @ wire_cmd (Rdy 5)) [] st'"
    unfolding wr_poll_def using request_round [OF demo_laws(1)] by blast
  then show ?thesis by (intro that [of st']) (simp_all add: hs_at_def hs_sent_def)
qed

text \<open>
  C22: the handshake never goes back. Whatever the server, the sockets and the readers do,
  the state in which \<open>run\<close> is later is at least as far in the order identify, TLS,
  authenticate, subscribe, ready, started; in particular a started connection stays started.
\<close>

theorem handshake_never_goes_back:
  assumes "flow_run (run_loop X W polls st) = Some st'"
  shows "cstate st \<le> cstate st'"
  using rank.inv_steps [OF run_loop_steps [OF assms], of "cstate st"] by simp

theorem handshake_never_goes_back_witness:
  "\<exists>st'. run_loop demo_ext (demo_world []) [wr_poll 1] (demo_run SRdy []) = Continue st' \<and>
     cstate st' = SStarted \<and> SRdy \<le> cstate st'"
proof -
  obtain st' where st': "plain_round demo_ext (wr_poll 1) (demo_run SRdy []) = Continue st'"
      "cstate st' = SStarted" "r_tls st' = 0"
    by (rule demo_rdy_round)
  then have run: "run_loop demo_ext (demo_world []) [wr_poll 1] (demo_run SRdy []) = Continue st'"
    by simp
  have "SRdy \<le> cstate st'"
    using handshake_never_goes_back [of demo_ext "demo_world []" "[wr_poll 1]" "demo_run SRdy []" st'] run
    by simp
  with run st'(2) show ?thesis by blast
qed

text \<open>
  C23: phase and state agree. A run of the client is never found in the states \<open>Start\<close> and
  \<open>TlsNegotiating\<close>, it is in the state \<open>Tls\<close> only after the flag for the TLS loop has been
  set, and in \<open>Identify\<close> only before; so the \<open>Tls\<close> branch of the plain loop is dead code.
\<close>

theorem phase_matches_state:
  assumes "flow_run (client_run X cl W polls) = Some st"
  shows "cstate st \<notin> {SStart, STlsNegotiating} \<and>
    (cstate st = STls \<longrightarrow> r_tls st = 1) \<and> (cstate st = SIdentify \<longrightarrow> r_tls st \<noteq> 1)"
proof -
  obtain st0 where "run_init st0" "(loop_step X)\<^sup>*\<^sup>* st0 st"
    using client_run_steps [OF assms] .
  then have "phase_inv st" by (rule phase.inv_reachable)
  then show ?thesis by (auto simp: phase_inv_def split: if_splits)
qed

theorem phase_matches_state_witness:
  "\<exists>st. client_run (demo_x True) (demo_client ''t'' ''c'') (demo_world []) [wr_poll 1] = Continue st \<and>
     cstate st = SIdentify \<and> r_tls st \<noteq> 1"
proof -
  have "asking (demo_x True) (demo_client ''t'' ''c'') (demo_world []) 1 ''{}'' []"
    by (simp add: HEARTBEAT_TIMEOUT_def)
  then obtain st where st: "\<And>ps. client_run (demo_x True) (demo_client ''t'' ''c'') (demo_world [])
        (wr_poll 1 # ps) = run_loop (demo_x True) (demo_world []) ps st"
      "cstate st = SIdentify" "r_tls st = 0"
    by (rule session_asked) (auto simp: hs_at_def)
  then have "client_run (demo_x True) (demo_client ''t'' ''c'') (demo_world []) [wr_poll 1] = Continue st"
    by simp
  with phase_matches_state [of "demo_x True" "demo_client ''t'' ''c''" "demo_world []" "[wr_poll 1]" st] st(2)
  show ?thesis by auto
qed

text \<open>
  Every event moves along at most one edge of the handshake graph, in the plain loop and
  in the TLS loop.
\<close>

lemma event_follows_graph:
  assumes "flow_run (plain_event X ev st) = Some st' \<or> flow_run (tls_event X ev st) = Some st'"
  shows "hs_move (cstate st) (cstate st')"
  using assms plain_event_move [of X ev st st'] tls_event_move [of X ev st st']
  by (auto simp: plain_move_def tls_move_def)

section \<open>The two loops\<close>

text \<open>
  C26: the loop over TLS is the loop over the plain socket. The program has the body of the
  event loop twice; an event has the same outcome in both, with three exceptions: while the
  answer to IDENTIFY is awaited, which only the plain loop handles; when a producer would
  subscribe; and when a close command is taken, where both loops return with the same state, but
  the plain loop has shut the socket down and the loop over TLS the TLS session.
\<close>

theorem loops_agree:
  assumes "cstate st \<noteq> SIdentify" "\<not> (is_producer (r_client st) \<and> cstate st = SSubscribe)"
  shows "if ev_token ev = CMD_TOKEN \<and> take 1 (r_close st @ ev_close ev) = [1]
    then \<exists>st'. plain_event X ev st = Done (st'\<lparr>r_shutdown := True\<rparr>) \<and>
      tls_event X ev st = Done (st'\<lparr>r_tls_shutdown := True\<rparr>)
    else tls_event X ev st = plain_event X ev st"
proof (cases "ev_token ev = CMD_TOKEN")
  case True
  show ?thesis
  proof (cases "r_close st @ ev_close ev")
    case (Cons m rest)
    then show ?thesis
      using True close_event [OF True, of st rest X]
      by (cases "m = 1") (auto simp: send_close_msg_def plain_event_def tls_event_def plain_close_def
          tls_close_def arrive_def intro: exI [of _ "send_close_msg ((arrive ev st)\<lparr>r_close := rest\<rparr>)"])
  qed (use True in \<open>simp add: plain_event_def tls_event_def plain_close_def tls_close_def arrive_def\<close>)
next
  case False
  let ?st = "arrive ev st"
  have same: "cstate ?st = cstate st" "r_client ?st = r_client st" by simp_all
  have "tls_response X (?st\<lparr>r_conn := c, r_sock := sk\<rparr>) = plain_response X (?st\<lparr>r_conn := c, r_sock := sk\<rparr>)"
    if "read_tcp X (r_conn ?st) (r_sock ?st) = Inr (io, c, sk)" for io c sk
    using read_tcp_keeps_state [OF that] assms
    by (cases "cstate st") (simp_all add: tls_response_def plain_response_def)
  then have "tls_read X ?st = plain_read X ?st"
    by (cases "read_tcp X (r_conn ?st) (r_sock ?st)")
      (auto simp: tls_read_def plain_read_def after_read_def split: sum.split)
  moreover have "tls_request X ?st = plain_request X ?st"
    using assms by (cases "cstate st") (simp_all add: tls_request_def plain_request_def)
  ultimately show ?thesis
    using False by (simp add: tls_event_def plain_event_def tls_started_write_def plain_started_write_def Let_def)
qed

text \<open>An event that flushes, and one that closes.\<close>

theorem loops_agree_witness:
  "(\<exists>st'. tls_event demo_ext (wr_ev 7) (demo_run SStarted []) = Continue st' \<and>
     plain_event demo_ext (wr_ev 7) (demo_run SStarted []) = Continue st' \<and> r_interest st' = Readable) \<and>
   (\<exists>st'. plain_event demo_ext close_ev (demo_run SStarted []) = Done (st'\<lparr>r_shutdown := True\<rparr>) \<and>
     tls_event demo_ext close_ev (demo_run SStarted []) = Done (st'\<lparr>r_tls_shutdown := True\<rparr>))"
proof -
  have "tls_event demo_ext (wr_ev 7) (demo_run SStarted []) =
      plain_event demo_ext (wr_ev 7) (demo_run SStarted [])"
    using loops_agree [of "demo_run SStarted []" "wr_ev 7" demo_ext]
    by (simp add: wr_ev_def token_defs)
  moreover have "\<exists>st'. plain_event demo_ext close_ev (demo_run SStarted []) = Done (st'\<lparr>r_shutdown := True\<rparr>) \<and>
      tls_event demo_ext close_ev (demo_run SStarted []) = Done (st'\<lparr>r_tls_shutdown := True\<rparr>)"
    using loops_agree [of "demo_run SStarted []" close_ev demo_ext] by (simp add: close_ev_def)
  moreover have "\<exists>st'. plain_event demo_ext (wr_ev 7) (demo_run SStarted []) = Continue st' \<and>
      r_interest st' = Readable"
    by (simp add: plain_event_wr plain_started_write_def answer_heartbeat_def flush_commands_def
        write_messages_def) (simp add: demo_conn_def conn_new_def)
  ultimately show ?thesis by simp
qed

end
