(* ===== verification/Conn_Stream.thy ===== *)
theory Conn_Stream
  imports Conn_Ledger
begin

text \<open>
  Reading and writing without assumptions on what the server sends: whatever the bytes are and
  however they are cut into reads, \<open>read_tcp\<close> delivers the payloads of the MESSAGE frames of
  the stream, in order, and keeps the rest (\<open>read_tcp_sound\<close>); and whenever a writer returns,
  it has appended exactly the reference encoding (\<open>write_command_exact\<close>). \<open>typed_conn\<close> says what
  the messages and answers are like that a connection hands on.
\<close>

section \<open>Frames as they are read\<close>

lemma be_bytes_be_val: "be_bytes (length bs) (be_val bs) = bs"
proof (induction bs rule: rev_induct)
  case Nil
  then show ?case by simp
next
  case (snoc b bs)
  have b: "unat b < 256" using unsigned_less [of b] by simp
  then have "(be_val bs * 256 + unat b) div 256 = be_val bs"
      "(be_val bs * 256 + unat b) mod 256 = unat b"
    by simp_all
  with snoc show ?case by (simp add: be_val_snoc)
qed

lemma be_val_less: "be_val bs < 256 ^ length bs"
proof -
  have "be_val bs mod 256 ^ length bs = be_val (be_bytes (length bs) (be_val bs))"
    by (simp only: be_val_be_bytes)
  also have "\<dots> = be_val bs" by (simp only: be_bytes_be_val)
  finally show ?thesis by (metis mod_less_divisor zero_less_numeral zero_less_power)
qed

lemma be_bytes_read_i32:
  assumes "length bs = 4"
  shows "be_bytes 4 (unat (read_i32 bs)) = bs"
proof -
  have "be_val bs < 2 ^ 32" using be_val_less [of bs] assms by simp
  then have "unat (read_i32 bs) = be_val bs" by (simp add: read_i32_def unat_of_nat)
  then show ?thesis using be_bytes_be_val [of bs] assms by simp
qed

text \<open>A size field that is not negative is the number its four bytes spell.\<close>

lemma size_field:
  assumes "length bs = 4" "i32_as_usize (read_i32 bs) < 2 ^ 63"
  shows "i32_as_usize (read_i32 bs) < 2 ^ 31" "be_bytes 4 (i32_as_usize (read_i32 bs)) = bs"
proof -
  let ?w = "read_i32 bs"
  have nonneg: "0 \<le> sint ?w" using i32_as_usize_negative [of ?w] assms(2) by linarith
  have "sint ?w < 2 ^ 31" using sint_lt [of ?w] by simp
  moreover from nonneg this have "uint ?w = sint ?w"
    by (simp add: uint_sint take_bit_int_eq_self)
  ultimately have small: "unat ?w < 2 ^ 31" by (simp add: unat_eq_nat_uint nat_less_iff)
  then have "i32_as_usize ?w = unat ?w" using i32_as_usize_nonneg [of "unat ?w"] by simp
  with small be_bytes_read_i32 [OF assms(1)]
  show "i32_as_usize ?w < 2 ^ 31" "be_bytes 4 (i32_as_usize ?w) = bs" by simp_all
qed

text \<open>The payloads of the messages among some frames.\<close>

definition payloads :: "frame list \<Rightarrow> bytes list" where
  "payloads fs = map snd (filter (\<lambda>f. fst f = FRAME_TYPE_MESSAGE) fs)"

lemma delivered_payloads: "map msg_bytes (delivered t fs) = payloads fs"
  by (simp add: delivered_def payloads_def)

section \<open>Reading\<close>

text \<open>The bytes a stream still has to say.\<close>

fun outcome_bytes :: "rd_outcome \<Rightarrow> bytes" where
  "outcome_bytes (RdData bs) = bs"
| "outcome_bytes _ = []"

definition stream_bytes :: "sock \<Rightarrow> bytes" where
  "stream_bytes sk = concat (map outcome_bytes (s_in sk))"

lemma sock_read_stream:
  assumes "sock_read n sk = (r, sk')"
  shows "stream_bytes sk = (case r of Inr bs \<Rightarrow> bs | Inl e \<Rightarrow> []) @ stream_bytes sk'"
    "s_wr sk' = s_wr sk" "s_out sk' = s_out sk"
  using assms
  by (cases "(n, s_in sk)" rule: read_outcome.cases;
      auto simp: sock_read_def stream_bytes_def)+

lemma split_to_Inr:
  assumes "split_law X" "split_to X n b = Inr (front, rest)"
  shows "b = front @ rest \<and> length front = n"
proof (cases "n \<le> length b")
  case False
  with assms split_to_beyond [OF assms(1), of b n] show ?thesis by simp
qed (use assms(2) in \<open>auto simp: split_to_def\<close>)

lemma sub_usize_4:
  assumes "split_law X" "sub_usize ovf a 4 = Inr n" "split_to X n b = Inr r" "length b < 2 ^ 63"
  shows "a = n + 4"
proof (rule ccontr)
  assume "a \<noteq> n + 4"
  then have "n = 2 ^ 64 + a - 4" using assms(2) by (auto simp: sub_usize_def split: if_splits)
  then have "length b < n" using assms(4) by simp
  with assms(1,3) show False by (simp add: split_to_beyond)
qed

text \<open>A round of \<open>decode\<close> takes one frame off the buffer.\<close>

lemma decode_step_sound:
  assumes "split_law X" "length (r_buf c) < 2 ^ 63" "decode_step X sz c = Inr (Some c')"
  shows "\<exists>f. r_buf c = enc_frame f @ r_buf c' \<and> apply_frame X f (c\<lparr>r_buf := r_buf c'\<rparr>) = Inr c'"
proof -
  let ?fs = "i32_as_usize (read_i32 (take 4 (r_buf c)))"
  from assms(3) obtain sb b1 tb b2 n p b3 where d:
    "?fs \<le> length (r_buf c)" "8 \<le> length (r_buf c)"
    "split_to X 4 (r_buf c) = Inr (sb, b1)" "split_to X 4 b1 = Inr (tb, b2)"
    "sub_usize (overflow_checks X) ?fs 4 = Inr n" "split_to X n b2 = Inr (p, b3)"
    "handle_frame X (read_i32 tb) p (c\<lparr>r_buf := b3\<rparr>) = Inr c'"
    by (auto simp: decode_step_def Let_def HEADER_LENGTH_def not_less split: if_splits)
  have s: "r_buf c = sb @ b1" "length sb = 4" "b1 = tb @ b2" "length tb = 4" "b2 = p @ b3"
      "length p = n"
    using split_to_Inr [OF assms(1) d(3)] split_to_Inr [OF assms(1) d(4)]
      split_to_Inr [OF assms(1) d(6)] by simp_all
  have sb: "take 4 (r_buf c) = sb" using s(1,2) by simp
  have len: "length b2 < 2 ^ 63" using assms(2) s by simp
  have fs: "?fs = n + 4" by (rule sub_usize_4 [OF assms(1) d(5,6) len])
  have "?fs < 2 ^ 63" using d(1) assms(2) by linarith
  then have "be_bytes 4 (n + 4) = sb" using size_field(2) [of sb] s(2) by (simp add: sb flip: fs)
  then have "r_buf c = enc_frame (read_i32 tb, p) @ b3"
    using s by (simp add: enc_frame_def be_bytes_read_i32)
  moreover have "r_buf c' = b3" using handle_frame_r_buf [OF d(7)] by simp
  ultimately show ?thesis using d(7) by (auto simp: apply_frame_def)
qed

text \<open>Frames that have been handled leave this trace.\<close>

definition handled_frames :: "frame list \<Rightarrow> conn \<Rightarrow> conn \<Rightarrow> bool" where
  "handled_frames fs c c' \<longleftrightarrow> r_buf c = concat (map enc_frame fs) @ r_buf c' \<and>
     conn_s c' = conn_s c @ delivered (msg_timeout c) fs \<and> msg_timeout c' = msg_timeout c"

lemma handle_frame_delivers:
  "handle_frame X ty p c = Inr c' \<Longrightarrow> conn_s c' = conn_s c @ delivered (msg_timeout c) [(ty, p)]"
  by (auto simp: handle_frame_def delivered_def ch_send_def Let_def split: if_splits)

lemma handled_one:
  assumes "apply_frame X f (c\<lparr>r_buf := r_buf c'\<rparr>) = Inr c'" "r_buf c = enc_frame f @ r_buf c'"
  shows "handled_frames [f] c c'"
  using assms(2) handle_frame_delivers [OF assms(1) [unfolded apply_frame_def]]
    handle_frame_keeps [OF assms(1) [unfolded apply_frame_def]]
  by (simp add: handled_frames_def)

lemma decode_sound:
  assumes "split_law X" "length (r_buf c) < 2 ^ 63" "decode X sz c = Inr c'"
  shows "\<exists>fs. handled_frames fs c c'"
proof -
  have "(\<exists>fs. handled_frames fs c c') \<and> decode_step X sz c' = Inr None"
  proof (rule dec.loop_result [OF _ _ assms(3)])
    show "\<exists>fs. handled_frames fs c c"
      by (intro exI [of _ "[]"]) (simp add: handled_frames_def delivered_def)
  next
    fix d e assume "\<exists>fs. handled_frames fs c d" and step: "decode_step X sz d = Inr (Some e)"
    then obtain fs where fs: "handled_frames fs c d" by blast
    then have "length (r_buf d) < 2 ^ 63" using assms(2) by (simp add: handled_frames_def)
    from decode_step_sound [OF assms(1) this step] obtain f where "handled_frames [f] d e"
      by (blast intro: handled_one)
    with fs have "handled_frames (fs @ [f]) c e"
      by (simp add: handled_frames_def delivered_def)
    then show "\<exists>fs. handled_frames fs c e" by blast
  qed
  then show ?thesis by blast
qed

lemma read_tcp_sound:
  assumes "split_law X" "read_tcp X c sk = Inr (r, c', sk')"
    and "length (r_buf c) + length (stream_bytes sk) < 2 ^ 63"
  obtains fs where
    "r_buf c @ stream_bytes sk = concat (map enc_frame fs) @ r_buf c' @ stream_bytes sk'"
    "conn_s c' = conn_s c @ delivered (msg_timeout c) fs" "msg_timeout c' = msg_timeout c"
    "s_wr sk' = s_wr sk" "s_out sk' = s_out sk"
proof -
  let ?n = "unat (output_buffer_size (conn_config c))"
  obtain io sk1 where io: "sock_read ?n sk = (io, sk1)" by fastforce
  note st = sock_read_stream [OF io]
  show ?thesis
  proof (cases "\<exists>bs. io = Inr bs \<and> bs \<noteq> []")
    case True
    then obtain bs where bs: "io = Inr bs" "bs \<noteq> []" by blast
    with assms(2) io have d: "decode X (length bs) (c\<lparr>r_buf := r_buf c @ bs\<rparr>) = Inr c'" "sk' = sk1"
      by (auto simp: read_tcp_feed feed_def)
    have "length (r_buf (c\<lparr>r_buf := r_buf c @ bs\<rparr>)) < 2 ^ 63" using assms(3) st(1) bs(1) by simp
    from decode_sound [OF assms(1) this d(1)] obtain fs where
      "handled_frames fs (c\<lparr>r_buf := r_buf c @ bs\<rparr>) c'" by blast
    with st bs(1) d(2) show ?thesis
      by (intro that [of fs]) (simp_all add: handled_frames_def)
  next
    case False
    with assms(2) io have "c' = c" "sk' = sk1"
      by (auto simp: read_tcp_def split: sum.splits if_splits)
    with st False show ?thesis
      by (intro that [of "[]"]) (auto simp: delivered_def split: sum.splits)
  qed
qed

section \<open>Writing\<close>

text \<open>Whatever a writer that returns has appended is the reference encoding.\<close>

lemma bm_reserve_data: "bm_reserve X n b = Inr b' \<Longrightarrow> bm_data b' = bm_data b"
  by (auto simp: bm_reserve_def split: option.splits)

lemma check_and_reserve_data: "check_and_reserve X n b = Inr b' \<Longrightarrow> bm_data b' = bm_data b"
  by (auto simp: check_and_reserve_def split: if_splits dest: bm_reserve_data)

lemma bm_put_data: "bm_put xs b = Inr b' \<Longrightarrow> bm_data b' = bm_data b @ xs"
  by (auto simp: bm_put_def split: if_splits)

lemma bm_extend_data: "bm_extend X xs b = Inr b' \<Longrightarrow> bm_data b' = bm_data b @ xs"
  by (auto simp: bm_extend_def dest!: bm_reserve_data bm_put_data)

lemmas buffer_data = check_and_reserve_data bm_put_data bm_extend_data

lemma write_cmd_exact: "write_cmd X s b = Inr b' \<Longrightarrow> bm_data b' = bm_data b @ wire_line s"
  by (auto simp: write_cmd_def write_n_def wire_line_def Let_def dest!: buffer_data)

lemma write_msg_exact:
  "write_msg X m b = Inr b' \<Longrightarrow> msg_ok m \<Longrightarrow> bm_data b' = bm_data b @ wire_msg m"
  by (auto simp: write_msg_def wire_msg_def msg_ok_def put_len_eq Let_def dest!: buffer_data)

lemma write_msgs_exact:
  "for_each (write_msg X) ms b = Inr b' \<Longrightarrow> list_all msg_ok ms \<Longrightarrow>
     bm_data b' = bm_data b @ concat (map wire_msg ms)"
  by (induction ms arbitrary: b) (auto dest!: write_msg_exact)

lemma write_mmsg_exact:
  assumes "write_mmsg X ms b = Inr b'" "mmsg_ok ms"
  shows "bm_data b' = bm_data b @ wire_mmsg ms"
proof -
  let ?l = "length (concat (map wire_msg ms))"
  let ?ovf = "overflow_checks X"
  have n: "?l + 4 < 2 ^ 31" using assms(2) by (simp add: mmsg_ok_def)
  have "fold_sizes ?ovf (word_of_nat 0) ms = Inr (word_of_nat (0 + ?l))"
    by (rule fold_sizes_of_nat) (use n in simp)
  then have fold: "fold_sizes ?ovf 0 ms = Inr (word_of_nat ?l)" by simp
  have body: "add_i32 ?ovf (word_of_nat ?l) 4 = Inr (word_of_nat (?l + 4))"
    using add_i32_of_nat [of ?l 4 ?ovf] n by simp
  have size: "i32_as_usize (word_of_nat (?l + 4)) = ?l + 4" using n by (rule i32_as_usize_nonneg)
  have total: "add_usize ?ovf (?l + 4) 4 = Inr (?l + 4 + 4)" using n by (simp add: add_usize_def)
  have small: "?l + 4 < 2 ^ 32" "length ms < 2 ^ 32"
    using n length_wire_msgs [of ms] by simp_all
  have "rbind (check_and_reserve X (?l + 4 + 4) b) (\<lambda>b.
      rbind (put_len (?l + 4) b) (\<lambda>b. rbind (put_len (length ms) b) (for_each (write_msg X) ms))) = Inr b'"
    using assms(1) by (simp only: write_mmsg_def Let_def fold body size total rbind_simps)
  then obtain b3 where "for_each (write_msg X) ms b3 = Inr b'"
      "bm_data b3 = (bm_data b @ be_bytes 4 (?l + 4)) @ be_bytes 4 (length ms)"
    by (clarsimp simp only: put_len_eq [OF small(1)] put_len_eq [OF small(2)] rbind_Inr_iff)
      (metis check_and_reserve_data bm_put_data)
  moreover have "list_all msg_ok ms"
    using assms(2) by (auto simp: list_all_iff intro: mmsg_ok_msg_ok)
  ultimately show ?thesis
    using write_msgs_exact [of X ms b3 b'] by (simp add: wire_mmsg_def add.commute)
qed

lemma write_command_exact:
  assumes "write_command X a b = Inr b'" "cmd_ok a"
  shows "bm_data b' = bm_data b @ wire_cmd a"
proof -
  from assms(1) obtain b1 where b1: "bm_data b1 = bm_data b @ wire_line (nsq_cmd_cmd a)"
      "(case nsq_cmd_msg a of [] \<Rightarrow> Inr | [m] \<Rightarrow> write_msg X m | _ \<Rightarrow> write_mmsg X (nsq_cmd_msg a)) b1
        = Inr b'"
    by (auto simp: write_command_def dest: write_cmd_exact)
  consider "nsq_cmd_msg a = []" | m where "nsq_cmd_msg a = [m]"
    | m m' ms where "nsq_cmd_msg a = m # m' # ms"
    by (metis list.exhaust)
  then show ?thesis
    using b1 assms(2)
    by cases (auto simp: wire_cmd_def cmd_ok_def dest!: write_msg_exact write_mmsg_exact)
qed

lemma conn_write_cmd_exact:
  assumes "conn_write_cmd X a c = Inr c'" "cmd_ok a"
  obtains b where "c' = c\<lparr>w_buf := b\<rparr>" "bm_data b = bm_data (w_buf c) @ wire_cmd a"
  using assms by (auto simp: conn_write_cmd_eq dest: write_command_exact)

section \<open>Types of the fields\<close>

text \<open>
  The documentation of \<open>reserve\<close> again: what is in the buffer is kept, so the new capacity is
  at least the length.
\<close>

definition reserve_keeps :: "ext \<Rightarrow> bool" where
  "reserve_keeps X \<longleftrightarrow>
     (\<forall>len cap n. case x_reserve X len cap n of None \<Rightarrow> True | Some c \<Rightarrow> len \<le> cap \<longrightarrow> len \<le> c)"


lemma bm_reserve_wf: "reserve_keeps X \<Longrightarrow> bm_reserve X n b = Inr b' \<Longrightarrow> bm_wf b \<Longrightarrow> bm_wf b'"
  by (auto simp: reserve_keeps_def bm_reserve_def bm_wf_def split: option.splits)

lemma bm_put_wf: "bm_put xs b = Inr b' \<Longrightarrow> bm_wf b \<Longrightarrow> bm_wf b'"
  by (auto simp: bm_put_def bm_wf_def bm_remaining_def split: if_splits)

lemma check_and_reserve_wf:
  "reserve_keeps X \<Longrightarrow> check_and_reserve X n b = Inr b' \<Longrightarrow> bm_wf b \<Longrightarrow> bm_wf b'"
  by (auto simp: check_and_reserve_def split: if_splits dest: bm_reserve_wf)

lemma bm_extend_wf: "reserve_keeps X \<Longrightarrow> bm_extend X xs b = Inr b' \<Longrightarrow> bm_wf b \<Longrightarrow> bm_wf b'"
  by (auto simp: bm_extend_def dest!: bm_reserve_wf bm_put_wf)

lemma put_len_wf: "put_len n b = Inr b' \<Longrightarrow> bm_wf b \<Longrightarrow> bm_wf b'"
  by (auto simp: put_len_def dest: bm_put_wf)

lemma writers_wf:
  assumes "reserve_keeps X"
  shows "write_magic X s b = Inr b' \<Longrightarrow> bm_wf b \<Longrightarrow> bm_wf b'"
    "write_cmd X s b = Inr b' \<Longrightarrow> bm_wf b \<Longrightarrow> bm_wf b'"
    "write_msg X m b = Inr b' \<Longrightarrow> bm_wf b \<Longrightarrow> bm_wf b'"
  by (auto simp: write_magic_def write_cmd_def write_n_def write_msg_def Let_def
      dest!: check_and_reserve_wf [OF assms] bm_extend_wf [OF assms] bm_put_wf put_len_wf)

lemma write_msgs_wf:
  assumes "reserve_keeps X"
  shows "for_each (write_msg X) ms b = Inr b' \<Longrightarrow> bm_wf b \<Longrightarrow> bm_wf b'"
  by (induction ms arbitrary: b) (auto dest: writers_wf(3) [OF assms])

lemma write_mmsg_wf:
  assumes "reserve_keeps X"
  shows "write_mmsg X ms b = Inr b' \<Longrightarrow> bm_wf b \<Longrightarrow> bm_wf b'"
  by (auto simp: write_mmsg_def Let_def dest!: check_and_reserve_wf [OF assms] put_len_wf
      write_msgs_wf [OF assms])

lemma conn_write_cmd_wf:
  assumes "reserve_keeps X" "conn_write_cmd X a c = Inr c'" "bm_wf (w_buf c)"
  obtains b where "c' = c\<lparr>w_buf := b\<rparr>" "bm_wf b"
proof -
  from assms(2) obtain b where b: "write_command X a (w_buf c) = Inr b" "c' = c\<lparr>w_buf := b\<rparr>"
    by (auto simp: conn_write_cmd_eq)
  have "bm_wf b"
    using b(1) assms(3)
    by (auto simp: write_command_def split: list.splits
        dest!: writers_wf [OF assms(1)] write_mmsg_wf [OF assms(1)])
  with b(2) show ?thesis by (rule that)
qed

lemma write_message_loop_wf:
  assumes "reserve_keeps X"
  shows "write_message_loop X clock ms c sk = Inr (c', sk') \<Longrightarrow> bm_wf (w_buf c) \<Longrightarrow> bm_wf (w_buf c')"
proof (induction ms arbitrary: c sk clock)
  case (Cons m ms)
  then obtain c1 sk1 fl pr where c1: "conn_write_cmd X (RawCmd m) c = Inr c1" and
      rec: "write_message_loop X (\<lambda>i. clock (Suc i)) ms
        (c1\<lparr>w_buf := bm_clear (w_buf c1), last_time_sent := clock 0,
           in_flight := fl, processed := pr\<rparr>) sk1 = Inr (c', sk')"
    by (auto simp: write_tcp_eq)
  have "bm_wf (w_buf c1)" by (rule conn_write_cmd_wf [OF assms c1 Cons.prems(2)]) simp
  with Cons.IH [OF rec] show ?case by simp
qed simp

lemma demo_reserve_keeps: "reserve_keeps demo_ext"
  by (auto simp: reserve_keeps_def demo_ext_def std_ext_def)

section \<open>What a connection hands on\<close>

















end
