(* ===== verification/Client_Traffic.thy ===== *)
theory Client_Traffic
  imports Client_Machine Conn_Stream
begin

text \<open>
  What the event loop reads and writes, one event after the other. \<open>inbound fs st st'\<close>: between
  \<open>st\<close> and \<open>st'\<close> exactly the frames \<open>fs\<close> have been taken off the stream, with their messages
  handed to the readers. \<open>outbound X its st st'\<close>: exactly the items \<open>its\<close> have been put into
  the buffer, the requests of the handshake and heartbeats on the one hand and the waiting
  commands, in their order, on the other; and the buffer has been given to the socket in
  batches of whole items, each of which the socket may have cut short.
\<close>

section \<open>Items on the wire\<close>

datatype item = Magic | Request nsq_cmd | Command cmd

fun item_bytes :: "item \<Rightarrow> bytes" where
  "item_bytes Magic = as_bytes VERSION"
| "item_bytes (Request a) = wire_cmd a"
| "item_bytes (Command m) = wire_cmd (RawCmd m)"

fun commands_of :: "item list \<Rightarrow> cmd list" where
  "commands_of [] = []"
| "commands_of (Magic # its) = commands_of its"
| "commands_of (Request a # its) = commands_of its"
| "commands_of (Command m # its) = m # commands_of its"

lemma commands_of_append [simp]: "commands_of (its @ its') = commands_of its @ commands_of its'"
  by (induction its rule: commands_of.induct) simp_all

lemma commands_of_commands [simp]: "commands_of (map Command ms) = ms"
  by (induction ms) simp_all

text \<open>The requests a client makes on its own.\<close>

definition own_requests :: "ext \<Rightarrow> config \<Rightarrow> client \<Rightarrow> nsq_cmd set" where
  "own_requests X cfg cl =
     {Nop, Subscribe (cl_topic cl) (cl_channel cl), Rdy (cl_rdy cl)} \<union>
     Identify ` set_option (x_config_json X cfg) \<union> Auth ` set_option (cl_secret cl)"

definition own_item :: "ext \<Rightarrow> config \<Rightarrow> client \<Rightarrow> item \<Rightarrow> bool" where
  "own_item X cfg cl it =
     (case it of Magic \<Rightarrow> False | Request a \<Rightarrow> a \<in> own_requests X cfg cl | Command m \<Rightarrow> True)"

text \<open>What can be written: requests and commands whose sizes fit their length fields.\<close>

definition fits_wire :: "ext \<Rightarrow> run \<Rightarrow> bool" where
  "fits_wire X st \<longleftrightarrow> list_all (\<lambda>m. cmd_ok (RawCmd m)) (conn_r (r_conn st)) \<and>
     (\<forall>a \<in> own_requests X (conn_config (r_conn st)) (r_client st). cmd_ok a)"

text \<open>
  A batch is what one write is given, a list of items, with the number of bytes the socket takes
  of them. The rest of the batch is lost, since \<open>write_tcp\<close> clears the buffer.
\<close>

type_synonym batch = "item list \<times> nat"

abbreviation items_bytes :: "item list \<Rightarrow> bytes" where
  "items_bytes its \<equiv> concat (map item_bytes its)"

definition batch_sent :: "batch \<Rightarrow> bytes" where
  "batch_sent b = take (snd b) (items_bytes (fst b))"

definition batch_whole :: "batch \<Rightarrow> bool" where
  "batch_whole b \<longleftrightarrow> length (items_bytes (fst b)) \<le> snd b"

abbreviation sent_bytes :: "batch list \<Rightarrow> bytes" where
  "sent_bytes bs \<equiv> concat (map batch_sent bs)"

abbreviation batch_items :: "batch list \<Rightarrow> item list" where
  "batch_items bs \<equiv> concat (map fst bs)"

lemma whole_batches: "list_all batch_whole bs \<Longrightarrow> sent_bytes bs = items_bytes (batch_items bs)"
  by (induction bs) (simp_all add: batch_sent_def batch_whole_def)

text \<open>
  The items \<open>its\<close> go into the buffer \<open>b\<close>, and batches go out. Commands do not stay in the
  buffer.
\<close>

definition ships :: "item list \<Rightarrow> bytes_mut \<Rightarrow> sock \<Rightarrow> bytes_mut \<Rightarrow> sock \<Rightarrow> bool" where
  "ships its b sk b' sk' \<longleftrightarrow>
     (s_wr sk = [] \<longrightarrow> s_wr sk' = []) \<and>
     (\<forall>p. bm_data b = items_bytes p \<longrightarrow>
        (\<exists>bs p'. s_out sk' = s_out sk @ sent_bytes bs \<and> bm_data b' = items_bytes p' \<and>
           p @ its = batch_items bs @ p' \<and> (s_wr sk = [] \<longrightarrow> list_all batch_whole bs) \<and>
           (commands_of p = [] \<longrightarrow> commands_of p' = [])))"

lemma shipsE:
  assumes "ships its b sk b' sk'" "bm_data b = items_bytes p"
  obtains bs p' where "s_out sk' = s_out sk @ sent_bytes bs" "bm_data b' = items_bytes p'"
    "p @ its = batch_items bs @ p'" "s_wr sk = [] \<longrightarrow> list_all batch_whole bs"
    "s_wr sk = [] \<longrightarrow> s_wr sk' = []" "commands_of p = [] \<longrightarrow> commands_of p' = []"
  using assms unfolding ships_def by metis

lemma ships_trans:
  assumes "ships its b sk b1 sk1" "ships its' b1 sk1 b2 sk2"
  shows "ships (its @ its') b sk b2 sk2"
  unfolding ships_def
proof (intro conjI allI impI)
  show "s_wr sk2 = []" if "s_wr sk = []" using that assms by (simp add: ships_def)
  fix p assume p: "bm_data b = items_bytes p"
  obtain bs p1 where 1: "s_out sk1 = s_out sk @ sent_bytes bs"
      "bm_data b1 = items_bytes p1" "p @ its = batch_items bs @ p1"
      "s_wr sk = [] \<longrightarrow> list_all batch_whole bs" "s_wr sk = [] \<longrightarrow> s_wr sk1 = []"
      "commands_of p = [] \<longrightarrow> commands_of p1 = []"
    by (rule shipsE [OF assms(1) p])
  obtain bs' p2 where 2: "s_out sk2 = s_out sk1 @ sent_bytes bs'"
      "bm_data b2 = items_bytes p2" "p1 @ its' = batch_items bs' @ p2"
      "s_wr sk1 = [] \<longrightarrow> list_all batch_whole bs'" "commands_of p1 = [] \<longrightarrow> commands_of p2 = []"
    by (rule shipsE [OF assms(2) 1(2)])
  have "p @ its @ its' = batch_items (bs @ bs') @ p2"
    using 1(3) 2(3) by (metis append.assoc map_append concat_append)
  then show "\<exists>bs p'. s_out sk2 = s_out sk @ sent_bytes bs \<and> bm_data b2 = items_bytes p' \<and>
      p @ its @ its' = batch_items bs @ p' \<and> (s_wr sk = [] \<longrightarrow> list_all batch_whole bs) \<and>
      (commands_of p = [] \<longrightarrow> commands_of p' = [])"
    using 1 2 by (intro exI [of _ "bs @ bs'"] exI [of _ p2]) simp
qed

lemma ships_nothing [simp]: "ships [] b sk b sk"
  by (auto simp: ships_def intro: exI [of _ "[]"])

lemma ships_append_write:
  assumes "bm_data b' = d" "d = bm_data b @ items_bytes its"
  shows "ships its b sk (bm_clear b') (snd (sock_write d sk))"
proof -
  obtain res sk' where w: "sock_write d sk = (res, sk')" by fastforce
  obtain k where k: "s_out sk' = s_out sk @ take k d" "s_wr sk = [] \<Longrightarrow> s_wr sk' = [] \<and> length d \<le> k"
  proof (cases "s_wr sk")
    case Nil
    with w show ?thesis by (intro that [of "length d"]) auto
  next
    case (Cons x xs)
    with sock_write_prefix [OF w] that show ?thesis by auto
  qed
  have "\<exists>bs p'. s_out sk' = s_out sk @ sent_bytes bs \<and> bm_data (bm_clear b') = items_bytes p' \<and>
      p @ its = batch_items bs @ p' \<and> (s_wr sk = [] \<longrightarrow> list_all batch_whole bs) \<and>
      (commands_of p = [] \<longrightarrow> commands_of p' = [])" if "bm_data b = items_bytes p" for p
    using k assms(2) that
    by (intro exI [of _ "[(p @ its, k)]"] exI [of _ "[]"]) (simp add: batch_sent_def batch_whole_def)
  then show ?thesis using k(2) by (simp add: ships_def w)
qed

section \<open>Traffic between two states\<close>

abbreviation with_content :: "bytes list \<Rightarrow> bytes list" where
  "with_content bs \<equiv> filter (\<lambda>b. b \<noteq> []) bs"

definition inbound :: "frame list \<Rightarrow> run \<Rightarrow> run \<Rightarrow> bool" where
  "inbound fs st st' \<longleftrightarrow>
     r_buf (r_conn st) @ stream_bytes (r_sock st) =
       concat (map enc_frame fs) @ r_buf (r_conn st') @ stream_bytes (r_sock st') \<and>
     (\<exists>ms. conn_s (r_conn st') = conn_s (r_conn st) @ ms \<and>
        map msg_bytes (contents ms) = with_content (payloads fs))"

definition outbound :: "ext \<Rightarrow> item list \<Rightarrow> run \<Rightarrow> run \<Rightarrow> bool" where
  "outbound X its st st' \<longleftrightarrow>
     ships its (w_buf (r_conn st)) (r_sock st) (w_buf (r_conn st')) (r_sock st') \<and>
     conn_r (r_conn st) = commands_of its @ conn_r (r_conn st') \<and>
     list_all (own_item X (conn_config (r_conn st)) (r_client st)) its \<and>
     conn_config (r_conn st') = conn_config (r_conn st) \<and> r_client st' = r_client st"

lemma inbound_trans:
  "inbound fs st st1 \<Longrightarrow> inbound fs' st1 st2 \<Longrightarrow> inbound (fs @ fs') st st2"
  by (auto simp: inbound_def payloads_def)

lemma outbound_trans:
  "outbound X its st st1 \<Longrightarrow> outbound X its' st1 st2 \<Longrightarrow> outbound X (its @ its') st st2"
  by (auto simp: outbound_def intro: ships_trans)

lemma outbound_fits: "outbound X its st st' \<Longrightarrow> fits_wire X st \<Longrightarrow> fits_wire X st'"
  by (auto simp: outbound_def fits_wire_def)

lemma bounds_interest [simp]:
  "inbound fs st (st'\<lparr>r_interest := i\<rparr>) = inbound fs st st'"
  "outbound X its st (st'\<lparr>r_interest := i\<rparr>) = outbound X its st st'"
  by (simp_all add: inbound_def outbound_def)

text \<open>Steps that touch neither the stream nor the queues.\<close>

definition silent :: "run \<Rightarrow> run \<Rightarrow> bool" where
  "silent st st' \<longleftrightarrow> r_sock st' = r_sock st \<and> r_client st' = r_client st \<and>
     r_buf (r_conn st') = r_buf (r_conn st) \<and> conn_s (r_conn st') = conn_s (r_conn st) \<and>
     in_flight (r_conn st') = in_flight (r_conn st) \<and> processed (r_conn st') = processed (r_conn st) \<and>
     conn_r (r_conn st') = conn_r (r_conn st) \<and> w_buf (r_conn st') = w_buf (r_conn st) \<and>
     conn_config (r_conn st') = conn_config (r_conn st)"

lemma silent_inbound: "silent st st' \<Longrightarrow> inbound [] st st'"
  by (auto simp: silent_def inbound_def payloads_def contents_def)

lemma silent_outbound: "silent st st' \<Longrightarrow> outbound X [] st st'"
  by (auto simp: silent_def outbound_def)

lemma silent_refl [simp]: "silent st st"
  by (simp add: silent_def)

lemma expect_response_silent: "expect_response st = Inr (s, st') \<Longrightarrow> silent st st'"
  by (auto simp: expect_response_def conn_get_response_def silent_def split: if_splits)

lemma auth_gate_silent: "flow_run (auth_gate st) = Some st' \<Longrightarrow> silent st st'"
  by (auto simp: auth_gate_def silent_def set_state_def split: if_splits)

lemma set_state_silent [simp]: "silent st (set_state s st') = silent st st'"
  by (simp add: silent_def set_state_def)

lemma silent_trans: "silent st st1 \<Longrightarrow> silent st1 st2 \<Longrightarrow> silent st st2"
  by (simp add: silent_def)

lemma plain_response_silent:
  assumes "flow_run (plain_response X st) = Some st'"
  shows "silent st st'"
proof -
  have "silent st st'" if "silent st (st1\<lparr>r_nsqd := nc, r_conn := (r_conn st1)\<lparr>msg_timeout := t\<rparr>\<rparr>)"
      "flow_run (auth_gate (st1\<lparr>r_nsqd := nc, r_conn := (r_conn st1)\<lparr>msg_timeout := t\<rparr>\<rparr>)) = Some st'"
    for st1 nc t
    using that by (blast intro: silent_trans auth_gate_silent)
  moreover have "silent st (st1\<lparr>r_nsqd := nc, r_conn := (r_conn st1)\<lparr>msg_timeout := t\<rparr>\<rparr>)"
    if "silent st st1" for st1 nc t
    using that by (simp add: silent_def)
  ultimately show ?thesis
    using assms
    by (auto simp: plain_response_def flow_run_flow_of Let_def tls_enabled_def
        split: state.splits if_splits dest!: expect_response_silent
        intro: silent_trans auth_gate_silent)
      (auto simp: silent_def)
qed

lemma tls_response_silent: "flow_run (tls_response X st) = Some st' \<Longrightarrow> silent st st'"
  by (auto simp: tls_response_def flow_run_flow_of split: state.splits if_splits
      dest!: expect_response_silent intro: silent_trans auth_gate_silent)

lemma response_done_run:
  "flow_run (response_done f) = Some st' \<Longrightarrow>
     \<exists>st1. flow_run f = Some st1 \<and> silent st1 st'"
  by (cases f) (auto simp: response_done_def silent_def)

lemma after_read_silent:
  assumes "\<And>st'. flow_run (h st) = Some st' \<Longrightarrow> silent st st'"
    and "flow_run (after_read h io st) = Some st'"
  shows "silent st st'"
proof (cases io)
  case (Inl e)
  with assms(2) show ?thesis
    by (auto simp: after_read_def read_failed_def silent_def split: if_splits)
next
  case (Inr n)
  with assms show ?thesis
    by (auto simp: after_read_def split: if_splits dest!: response_done_run
        intro: silent_trans) (auto simp: silent_def)
qed

section \<open>What is read\<close>

lemma read_run:
  assumes "flow_run (flow_of (read_tcp X (r_conn st) (r_sock st)) (\<lambda>(io, c, sk).
      after_read h io (st\<lparr>r_conn := c, r_sock := sk\<rparr>))) = Some st'"
    and "\<And>s s'. flow_run (h s) = Some s' \<Longrightarrow> silent s s'"
  obtains io c sk where "read_tcp X (r_conn st) (r_sock st) = Inr (io, c, sk)"
    "silent (st\<lparr>r_conn := c, r_sock := sk\<rparr>) st'"
proof -
  from assms(1) obtain io c sk where r: "read_tcp X (r_conn st) (r_sock st) = Inr (io, c, sk)"
      "flow_run (after_read h io (st\<lparr>r_conn := c, r_sock := sk\<rparr>)) = Some st'"
    by (auto simp: flow_run_flow_of)
  from r(1) after_read_silent [OF assms(2) r(2)] show ?thesis by (rule that)
qed

lemma loop_read_run:
  assumes "flow_run (plain_read X st) = Some st' \<or> flow_run (tls_read X st) = Some st'"
  obtains io c sk where "read_tcp X (r_conn st) (r_sock st) = Inr (io, c, sk)"
    "silent (st\<lparr>r_conn := c, r_sock := sk\<rparr>) st'"
  using assms unfolding plain_read_def tls_read_def conn_read_def
  by (elim disjE) (erule read_run, erule plain_response_silent, assumption,
      erule read_run, erule tls_response_silent, assumption)

definition small_input :: "run \<Rightarrow> bool" where
  "small_input st \<longleftrightarrow> length (r_buf (r_conn st)) + length (stream_bytes (r_sock st)) < 2 ^ 63"

lemma read_inbound:
  assumes "read_tcp X (r_conn st) (r_sock st) = Inr (io, c, sk)"
    and "silent (st\<lparr>r_conn := c, r_sock := sk\<rparr>) st'" "split_law X" "small_input st"
  shows "\<exists>fs. inbound fs st st'"
proof -
  obtain fs where fs:
      "r_buf (r_conn st) @ stream_bytes (r_sock st) =
        concat (map enc_frame fs) @ r_buf c @ stream_bytes sk"
      "conn_s c = conn_s (r_conn st) @ delivered (msg_timeout (r_conn st)) fs"
    by (rule read_tcp_sound [OF assms(3,1) assms(4) [unfolded small_input_def]])
  have "map msg_bytes (contents (delivered t fs)) = with_content (payloads fs)" for t
    by (simp add: contents_def filter_map comp_def flip: delivered_payloads [of t])
  with fs assms(2) have "inbound fs st st'" by (auto simp: inbound_def silent_def)
  then show ?thesis by blast
qed

text \<open>Writing, whatever the socket makes of it, reads nothing and sends nothing to the readers.\<close>

definition unread :: "run \<Rightarrow> run \<Rightarrow> bool" where
  "unread st st' \<longleftrightarrow> r_buf (r_conn st') = r_buf (r_conn st) \<and>
     conn_s (r_conn st') = conn_s (r_conn st) \<and> s_in (r_sock st') = s_in (r_sock st)"

lemma unread_inbound: "unread st st' \<Longrightarrow> inbound [] st st'"
  by (simp add: unread_def inbound_def stream_bytes_def payloads_def contents_def)

lemma sock_write_s_in [simp]: "s_in (snd (sock_write bs sk)) = s_in sk"
  by (simp add: sock_write.simps split: list.split wr_outcome.split)

lemma write_message_loop_s_in:
  "write_message_loop X clock ms c sk = Inr (c', sk') \<Longrightarrow> s_in sk' = s_in sk"
  by (induction ms arbitrary: c sk clock) (auto simp: write_tcp_eq)

lemma flush_unread: "flush_commands X ev st = Inr st' \<Longrightarrow> unread st st'"
  by (auto simp: flush_commands_def write_messages_def unread_def
      dest: write_message_loop_keeps write_message_loop_s_in)

lemma heartbeat_unread: "answer_heartbeat X ev st = Inr st' \<Longrightarrow> unread st st'"
  by (auto simp: answer_heartbeat_def unread_def write_tcp_eq conn_write_cmd_eq heartbeat_done_def
      split: if_splits)

lemma unread_trans: "unread st st1 \<Longrightarrow> unread st1 st2 \<Longrightarrow> unread st st2"
  by (simp add: unread_def)

lemma request_unread:
  assumes "flow_run (plain_request X st) = Some st' \<or> flow_run (tls_request X st) = Some st'"
  shows "unread st st'"
  using assms
  by (auto simp: plain_request_def tls_request_def flow_run_flow_of unread_def send_request_def
      write_tcp_eq identify_def auth_def subscribe_def conn_rdy_def conn_write_cmd_eq
      split: state.splits option.splits if_splits)

lemma close_inbound:
  assumes "flow_run (plain_close st) = Some st' \<or> flow_run (tls_close st) = Some st'"
  shows "inbound [] st st'"
  using assms
  by (cases "r_close st")
    (auto simp: plain_close_def tls_close_def send_close_msg_def ch_send_def inbound_def
      payloads_def contents_def split: if_splits)

section \<open>What is written\<close>

lemma read_tcp_writes_nothing:
  assumes "read_tcp X c sk = Inr (io, c', sk')"
  shows "w_buf c' = w_buf c \<and> conn_r c' = conn_r c \<and> conn_config c' = conn_config c \<and>
    s_out sk' = s_out sk \<and> s_wr sk' = s_wr sk"
proof -
  have "w_buf d = w_buf c \<and> conn_r d = conn_r c \<and> conn_config d = conn_config c"
    if "decode X sz (c\<lparr>r_buf := b\<rparr>) = Inr d" for sz b d
    using dec.loop_result [of "\<lambda>d. w_buf d = w_buf c \<and> conn_r d = conn_r c \<and> conn_config d = conn_config c",
        OF _ _ that] decode_step_keeps by fastforce
  with assms sock_read_stream(2,3) show ?thesis
    by (auto simp: read_tcp_def split: prod.splits sum.splits if_splits)
qed

lemma read_outbound:
  assumes "read_tcp X (r_conn st) (r_sock st) = Inr (io, c, sk)"
    and "silent (st\<lparr>r_conn := c, r_sock := sk\<rparr>) st'"
  shows "outbound X [] st st'"
  using assms(2) read_tcp_writes_nothing [OF assms(1)]
  by (auto simp: outbound_def silent_def ships_def intro: exI [of _ "[]"])

lemma write_message_loop_ships:
  "write_message_loop X clock ms c sk = Inr (c', sk') \<Longrightarrow>
   list_all (\<lambda>m. cmd_ok (RawCmd m)) ms \<Longrightarrow> ships (map Command ms) (w_buf c) sk (w_buf c') sk'"
proof (induction ms arbitrary: c sk clock)
  case Nil
  then show ?case by simp
next
  case (Cons m ms)
  let ?w = "\<lambda>c1. snd (sock_write (bm_data (w_buf c1)) sk)"
  from Cons.prems obtain c1 fl pr where
      c1: "conn_write_cmd X (RawCmd m) c = Inr c1" and
      rec: "write_message_loop X (\<lambda>i. clock (Suc i)) ms
        (c1\<lparr>w_buf := bm_clear (w_buf c1), last_time_sent := clock 0, in_flight := fl,
           processed := pr\<rparr>) (?w c1) = Inr (c', sk')"
    by (auto simp: write_tcp_eq)
  from Cons.prems(2) have "cmd_ok (RawCmd m)" by simp
  then obtain b where "c1 = c\<lparr>w_buf := b\<rparr>" "bm_data b = bm_data (w_buf c) @ wire_cmd (RawCmd m)"
    by (rule conn_write_cmd_exact [OF c1])
  then have "ships [Command m] (w_buf c) sk (bm_clear (w_buf c1)) (?w c1)"
    by (intro ships_append_write) simp_all
  from ships_trans [OF this Cons.IH [OF rec, simplified]] Cons.prems(2) show ?case by simp
qed

lemma flush_outbound:
  assumes "flush_commands X ev st = Inr st'" "fits_wire X st"
  shows "outbound X (map Command (conn_r (r_conn st))) st st'"
proof -
  from assms(1) obtain c sk where c: "st' = st\<lparr>r_conn := c, r_sock := sk\<rparr>"
      "write_message_loop X (ev_clock ev) (conn_r (r_conn st)) ((r_conn st)\<lparr>conn_r := []\<rparr>) (r_sock st)
        = Inr (c, sk)"
    by (auto simp: flush_commands_def write_messages_def)
  from assms(2) have "list_all (\<lambda>m. cmd_ok (RawCmd m)) (conn_r (r_conn st))"
    by (simp add: fits_wire_def)
  from write_message_loop_ships [OF c(2) this] write_message_loop_keeps [OF c(2)] show ?thesis
    by (simp add: c(1) outbound_def own_item_def list_all_iff)
qed

lemma heartbeat_outbound:
  assumes "answer_heartbeat X ev st = Inr st'" "fits_wire X st"
  shows "\<exists>its. outbound X its st st'"
proof (cases "heartbeat (r_conn st)")
  case True
  have ok: "cmd_ok Nop" using assms(2) by (simp add: fits_wire_def own_requests_def)
  from True assms(1) obtain c where c: "conn_write_cmd X Nop (r_conn st) = Inr c"
      "st' = st\<lparr>r_last_heartbeat := ev_now ev, r_conn := heartbeat_done (c\<lparr>w_buf := bm_clear (w_buf c)\<rparr>),
        r_sock := snd (sock_write (bm_data (w_buf c)) (r_sock st))\<rparr>"
    by (auto simp: answer_heartbeat_def write_tcp_eq)
  obtain b where b: "c = (r_conn st)\<lparr>w_buf := b\<rparr>" "bm_data b = bm_data (w_buf (r_conn st)) @ wire_cmd Nop"
    by (rule conn_write_cmd_exact [OF c(1) ok])
  then have "ships [Request Nop] (w_buf (r_conn st)) (r_sock st) (bm_clear (w_buf c)) (r_sock st')"
    unfolding c(2) by (simp add: ships_append_write)
  with b have "outbound X [Request Nop] st st'"
    by (simp add: c(2) heartbeat_done_def outbound_def own_item_def own_requests_def)
  then show ?thesis by blast
next
  case False
  with assms(1) show ?thesis by (auto simp: answer_heartbeat_def intro!: exI [of _ "[]"] silent_outbound)
qed

lemma started_write_outbound:
  assumes "rbind (answer_heartbeat X ev st) (flush_commands X ev) = Inr st'" "fits_wire X st"
  shows "\<exists>its. outbound X its st st'"
proof -
  from assms(1) obtain st1 where st1: "answer_heartbeat X ev st = Inr st1"
      "flush_commands X ev st1 = Inr st'" by blast
  from heartbeat_outbound [OF st1(1) assms(2)] obtain its where hb: "outbound X its st st1" by blast
  from outbound_trans [OF hb flush_outbound [OF st1(2) outbound_fits [OF hb assms(2)]]]
  show ?thesis by blast
qed

text \<open>An operation of the handshake appends some requests of the client's own.\<close>

definition appends :: "ext \<Rightarrow> client \<Rightarrow> item list \<Rightarrow> conn \<Rightarrow> conn \<Rightarrow> bool" where
  "appends X cl its c c' \<longleftrightarrow> bm_data (w_buf c') = bm_data (w_buf c) @ concat (map item_bytes its) \<and>
     list_all (own_item X (conn_config c) cl) its \<and> commands_of its = [] \<and>
     conn_r c' = conn_r c \<and> conn_config c' = conn_config c"

lemma appends_nothing [simp]: "appends X cl [] c c" "appends X cl [] c (c\<lparr>conn_state := s\<rparr>)"
  by (simp_all add: appends_def)

lemma appends_request:
  assumes "conn_write_cmd X a c = Inr c1" "a \<in> own_requests X (conn_config c) cl" "cmd_ok a"
  shows "appends X cl [Request a] c (c1\<lparr>conn_state := s, need_response := n\<rparr>)"
proof -
  obtain b where "c1 = c\<lparr>w_buf := b\<rparr>" "bm_data b = bm_data (w_buf c) @ wire_cmd a"
    by (rule conn_write_cmd_exact [OF assms(1,3)])
  with assms(2) show ?thesis by (simp add: appends_def own_item_def)
qed

lemma handshake_appends:
  assumes "\<forall>a \<in> own_requests X (conn_config c) cl. cmd_ok a"
  shows "identify X c = Inr c' \<Longrightarrow> \<exists>its. appends X cl its c c'"
    "cl_secret cl = Some s \<Longrightarrow> auth X s c = Inr c' \<Longrightarrow> \<exists>its. appends X cl its c c'"
    "subscribe X (cl_topic cl) (cl_channel cl) c = Inr c' \<Longrightarrow> \<exists>its. appends X cl its c c'"
    "conn_rdy X (cl_rdy cl) c = Inr c' \<Longrightarrow> \<exists>its. appends X cl its c c'"
proof -
  show "\<exists>its. appends X cl its c c'" if i: "identify X c = Inr c'"
  proof -
    from i obtain j c1 where j: "x_config_json X (conn_config c) = Some j"
        "conn_write_cmd X (RawCmd (as_cmd (Identify j))) c = Inr c1"
        "c' = c1\<lparr>conn_state := SIdentify, need_response := True\<rparr>"
      by (auto simp: identify_def split: option.splits)
    then have "Identify j \<in> own_requests X (conn_config c) cl" by (simp add: own_requests_def)
    moreover have "conn_write_cmd X (Identify j) c = Inr c1"
      using j(2) by (simp add: conn_write_cmd_def)
    ultimately show ?thesis using assms j(3) appends_request by blast
  qed
  show "\<exists>its. appends X cl its c c'" if "cl_secret cl = Some s" "auth X s c = Inr c'"
    using that assms appends_request [of X "Auth s" c] by (fastforce simp: auth_def own_requests_def)
  show "\<exists>its. appends X cl its c c'" if "subscribe X (cl_topic cl) (cl_channel cl) c = Inr c'"
    using that assms appends_request [of X "Subscribe (cl_topic cl) (cl_channel cl)" c]
    by (fastforce simp: subscribe_def own_requests_def)
  show "\<exists>its. appends X cl its c c'" if "conn_rdy X (cl_rdy cl) c = Inr c'"
    using that assms appends_request [of X "Rdy (cl_rdy cl)" c]
    by (fastforce simp: conn_rdy_def own_requests_def)
qed

lemma request_outbound:
  assumes "flow_run (flow_of m (\<lambda>c. Continue (send_request (st\<lparr>r_conn := c\<rparr>)))) = Some st'"
    and "\<And>c. m = Inr c \<Longrightarrow> \<exists>its. appends X (r_client st) its (r_conn st) c"
  shows "\<exists>its. outbound X its st st'"
proof -
  from assms(1) obtain c where c: "m = Inr c" "st' = send_request (st\<lparr>r_conn := c\<rparr>)"
    by (cases m) auto
  from assms(2) [OF c(1)] obtain its where "appends X (r_client st) its (r_conn st) c" by blast
  then have "outbound X its st st'"
    by (simp add: c(2) send_request_def write_tcp_eq outbound_def appends_def ships_append_write)
  then show ?thesis by blast
qed

lemma own_cmd_ok:
  "fits_wire X st \<Longrightarrow> \<forall>a \<in> own_requests X (conn_config (r_conn st)) (r_client st). cmd_ok a"
  by (simp add: fits_wire_def)

lemma plain_request_outbound:
  assumes "flow_run (plain_request X st) = Some st'" "fits_wire X st"
  shows "\<exists>its. outbound X its st st'"
  using assms(1) unfolding plain_request_def
  by (rule request_outbound)
    (auto split: state.splits option.splits intro: exI [of _ "[]"]
      dest: handshake_appends [OF own_cmd_ok [OF assms(2)]])

lemma tls_request_outbound:
  assumes "flow_run (tls_request X st) = Some st'" "fits_wire X st"
  shows "\<exists>its. outbound X its st st'"
  using assms(1) unfolding tls_request_def
  by (rule request_outbound)
    (auto split: state.splits option.splits if_splits intro: exI [of _ "[]"]
      dest: handshake_appends [OF own_cmd_ok [OF assms(2)]])

lemma close_outbound:
  assumes "flow_run (plain_close st) = Some st' \<or> flow_run (tls_close st) = Some st'"
  shows "outbound X [] st st'"
  using assms
  by (cases "r_close st")
    (auto simp: plain_close_def tls_close_def send_close_msg_def outbound_def
      split: if_splits)

section \<open>Events\<close>

text \<open>One event of the loop, in either phase.\<close>

definition loop_event :: "ext \<Rightarrow> event \<Rightarrow> run \<Rightarrow> flow" where
  "loop_event X ev st = (if r_tls st = 1 then tls_event X ev st else plain_event X ev st)"

lemma loop_event_cases:
  assumes "flow_run (loop_event X ev st) = Some st'"
  obtains (close) "flow_run (plain_close (arrive ev st)) = Some st' \<or> flow_run (tls_close (arrive ev st)) = Some st'"
  | (read) io c sk where "read_tcp X (r_conn (arrive ev st)) (r_sock (arrive ev st)) = Inr (io, c, sk)"
      "silent ((arrive ev st)\<lparr>r_conn := c, r_sock := sk\<rparr>) st'"
  | (request) "flow_run (plain_request X (arrive ev st)) = Some st' \<or>
      flow_run (tls_request X (arrive ev st)) = Some st'"
  | (started) st1 where "rbind (answer_heartbeat X ev (arrive ev st)) (flush_commands X ev) = Inr st1"
      "st' = st1\<lparr>r_interest := Readable\<rparr>"
  | (flush) "flush_commands X ev (arrive ev st) = Inr st'"
proof -
  let ?st = "arrive ev st"
  from assms consider "flow_run (plain_close ?st) = Some st' \<or> flow_run (tls_close ?st) = Some st'"
    | "flow_run (plain_read X ?st) = Some st' \<or> flow_run (tls_read X ?st) = Some st'"
    | "flow_run (plain_request X ?st) = Some st' \<or> flow_run (tls_request X ?st) = Some st'"
    | st1 where "rbind (answer_heartbeat X ev ?st) (flush_commands X ev) = Inr st1"
        "st' = st1\<lparr>r_interest := Readable\<rparr>"
    | "flush_commands X ev ?st = Inr st'"
    by (auto simp: loop_event_def plain_event_def tls_event_def plain_started_write_def
        tls_started_write_def Let_def flow_run_flow_of split: if_splits)
  then show ?thesis
  proof cases
    case 1
    then show ?thesis by (rule close)
  next
    case 2
    then show ?thesis by (rule loop_read_run) (rule read)
  next
    case 3
    then show ?thesis by (rule request)
  next
    case (4 st1)
    then show ?thesis by (rule started)
  next
    case 5
    then show ?thesis by (rule flush)
  qed
qed

lemma loop_event_inbound:
  assumes "flow_run (loop_event X ev st) = Some st'" "split_law X" "small_input st"
  shows "\<exists>fs. inbound fs (arrive ev st) st'"
  using assms(1)
proof (cases rule: loop_event_cases)
  case close
  then show ?thesis by (blast intro: close_inbound)
next
  case (read io c sk)
  moreover have "small_input (arrive ev st)" using assms(3) by (simp add: small_input_def arrive_def)
  ultimately show ?thesis by (blast intro: read_inbound assms(2))
next
  case request
  then show ?thesis by (blast intro: unread_inbound request_unread)
next
  case (started st1)
  then have "unread (arrive ev st) st1"
    by (auto dest!: heartbeat_unread flush_unread intro: unread_trans)
  then show ?thesis by (auto simp: started(2) intro: unread_inbound)
next
  case flush
  then show ?thesis by (blast intro: unread_inbound flush_unread)
qed

lemma loop_event_outbound:
  assumes "flow_run (loop_event X ev st) = Some st'" "fits_wire X (arrive ev st)"
  shows "\<exists>its. outbound X its (arrive ev st) st'"
  using assms(1)
proof (cases rule: loop_event_cases)
  case close
  then show ?thesis by (blast intro: close_outbound)
next
  case (read io c sk)
  then show ?thesis by (blast intro: read_outbound)
next
  case request
  with assms(2) show ?thesis by (blast dest: plain_request_outbound tls_request_outbound)
next
  case (started st1)
  with started_write_outbound [OF started(1) assms(2)] show ?thesis by simp
next
  case flush
  with assms(2) show ?thesis by (blast intro: flush_outbound)
qed

lemma check_heartbeat_traffic:
  "inbound [] st (check_heartbeat now st)"
  "outbound X [] st (check_heartbeat now st)"
  by (auto simp: check_heartbeat_def send_close_msg_def inbound_def outbound_def payloads_def
      contents_def ch_send_def)

end
