(* ===== verification/Workers.thy ===== *)
theory Workers
  imports Conn
begin

text \<open>
  The threads around the event loop (\<open>src/client.rs\<close>): the consumers of \<open>spawn\<close>, the
  producers of \<open>spawn_producer\<close> and the two wakers of \<open>run\<close>, which share the lock
  \<open>CONNECTED\<close>; and \<open>Context::send\<close>, through which handlers send commands. A thread is a
  program counter; \<open>run_thread i\<close> lets the thread \<open>i\<close> do its next step, which does nothing
  while it is blocked on the lock or on an empty channel. A schedule is any sequence of such
  steps and of arrivals on the channels, so every interleaving is covered. Holding the guard
  of the lock is being in one of the states of \<open>holding\<close>; a panic while holding it poisons
  the lock, after which \<open>lock().unwrap()\<close> panics in turn.
\<close>

section \<open>Handlers and threads\<close>

text \<open>
  The user's \<open>Consumer\<close> and \<open>Producer\<close>. A call answers the commands it sends through the
  context, in order, and the handler afterwards, or \<open>None\<close> if it panics after it has sent them.
  \<open>h_publish n\<close> is what the \<open>n\<close>th call of \<open>publish\<close> answers, \<open>None\<close> for a panic.
\<close>

record 'h handlers =
  h_on_msg :: "'h \<Rightarrow> msg \<Rightarrow> nsq_cmd list \<times> 'h option"
  h_on_close :: "'h \<Rightarrow> nsq_cmd list \<times> 'h option"
  h_publish :: "nat \<Rightarrow> cmd option"

datatype 'h thread =
    CLock 'h
  | CRecv 'h
  | CHandle 'h u64 bytes
  | CClose 'h
  | PLock
  | PHold
  | SRecv
  | SLock
  | MRecv
  | MLock
  | Ended
  | Dead

fun holding :: "'h thread \<Rightarrow> bool" where
  "holding (CRecv h) = True"
| "holding (CHandle h t b) = True"
| "holding (CClose h) = True"
| "holding PHold = True"
| "holding _ = False"

text \<open>
  The shared state. The fields from \<open>p_taken\<close> on record what has happened: the messages received
  by consumers, the messages given to \<open>on_msg\<close> (also when it then panics), the calls of
  \<open>on_close\<close>, the commands sent through contexts, the calls of \<open>publish\<close>, and the calls of
  \<open>set_readiness\<close> by the waker, those that succeeded and those that failed. A successful call
  makes an event of the waker due; the poll may answer several calls with one event.
\<close>

record 'h pool =
  p_connected :: bool
  p_poisoned :: bool
  p_holder :: "nat option"
  p_msgs :: "bytes_msg channel"
  p_cmds :: "cmd channel"
  p_sentinel :: "unit channel"
  p_in_cmd :: "conn_msg channel"
  p_user_gone :: bool
  p_close :: "u32 channel"
  p_threads :: "'h thread list"
  p_taken :: "bytes_msg list"
  p_handled :: "msg list"
  p_closed :: nat
  p_sent :: "cmd list"
  p_published :: nat
  p_wakes :: nat
  p_wake_errs :: nat

definition pool_new :: "'h pool" where
  "pool_new =
     \<lparr>p_connected = True, p_poisoned = False, p_holder = None, p_msgs = [], p_cmds = [],
      p_sentinel = [], p_in_cmd = [], p_user_gone = False, p_close = [], p_threads = [], p_taken = [],
      p_handled = [], p_closed = 0, p_sent = [], p_published = 0, p_wakes = 0,
      p_wake_errs = 0\<rparr>"

section \<open>Spawning\<close>

definition spawn :: "nat \<Rightarrow> 'h \<Rightarrow> 'h pool \<Rightarrow> 'h pool" where
  "spawn n reader p = p\<lparr>p_threads := p_threads p @ replicate n (CLock reader)\<rparr>"

definition spawn_producer :: "nat \<Rightarrow> 'h pool \<Rightarrow> 'h pool" where
  "spawn_producer n p = p\<lparr>p_threads := p_threads p @ replicate n PLock\<rparr>"

definition spawn_wakers :: "'h pool \<Rightarrow> 'h pool" where
  "spawn_wakers p = p\<lparr>p_threads := p_threads p @ [SRecv, MRecv]\<rparr>"

section \<open>The context\<close>

definition context_send :: "nsq_cmd \<Rightarrow> 'h pool \<Rightarrow> 'h pool" where
  "context_send a p =
     p\<lparr>p_cmds := ch_send (as_cmd a) (p_cmds p), p_sentinel := ch_send () (p_sentinel p),
       p_sent := p_sent p @ [as_cmd a]\<rparr>"

definition on_max_attemps :: "msg \<Rightarrow> 'h pool \<Rightarrow> 'h pool" where
  "on_max_attemps m p = context_send (Touch (msg_id m)) p"

section \<open>Steps of a thread\<close>

definition goto :: "nat \<Rightarrow> 'h thread \<Rightarrow> 'h pool \<Rightarrow> 'h pool" where
  "goto i th p = p\<lparr>p_threads := (p_threads p)[i := th]\<rparr>"

text \<open>\<open>lock().unwrap()\<close>: blocked, a panic, or the guard.\<close>

definition with_lock :: "nat \<Rightarrow> ('h pool \<Rightarrow> 'h pool) \<Rightarrow> 'h pool \<Rightarrow> 'h pool" where
  "with_lock i f p =
     (if p_holder p \<noteq> None then p
      else if p_poisoned p then goto i Dead p
      else f p)"

text \<open>Going on with the guard held, and dropping it.\<close>

definition hold :: "nat \<Rightarrow> 'h thread \<Rightarrow> 'h pool \<Rightarrow> 'h pool" where
  "hold i th p = goto i th (p\<lparr>p_holder := Some i\<rparr>)"

definition release :: "nat \<Rightarrow> 'h thread \<Rightarrow> 'h pool \<Rightarrow> 'h pool" where
  "release i th p = goto i th (p\<lparr>p_holder := None\<rparr>)"

definition panicked :: "nat \<Rightarrow> 'h pool \<Rightarrow> 'h pool" where
  "panicked i p = release i Dead (p\<lparr>p_poisoned := True\<rparr>)"

definition consumer_lock :: "nat \<Rightarrow> 'h \<Rightarrow> 'h pool \<Rightarrow> 'h pool" where
  "consumer_lock i h =
     with_lock i (\<lambda>p. if \<not> p_connected p then goto i Ended p else hold i (CRecv h) p)"

definition consumer_recv :: "nat \<Rightarrow> 'h \<Rightarrow> 'h pool \<Rightarrow> 'h pool" where
  "consumer_recv i h p =
     (case ch_try_recv (p_msgs p) of
        (None, rest) \<Rightarrow> p
      | (Some (BytesMsg t b), rest) \<Rightarrow>
          (let p1 = p\<lparr>p_msgs := rest, p_taken := p_taken p @ [BytesMsg t b]\<rparr> in
           if b = [] then goto i (CClose h) (p1\<lparr>p_connected := False\<rparr>)
           else goto i (CHandle h t b) p1))"

text \<open>
  A call of a handler, with the commands it sends, is one step. The guard is held from the step
  before until after the call, so no other handler can run in between; what one step leaves out
  is that the event loop may already take the first commands of a call before it has sent the
  last, which cannot happen to handlers that send one command at most.
\<close>

definition consumer_handle ::
  "ext \<Rightarrow> 'h handlers \<Rightarrow> nat \<Rightarrow> 'h \<Rightarrow> u64 \<Rightarrow> bytes \<Rightarrow> 'h pool \<Rightarrow> 'h pool"
where
  "consumer_handle X H i h t b p =
     (case decode_msg X b of
        Inl _ \<Rightarrow> panicked i p
      | Inr (ts, att, ident, body) \<Rightarrow>
          (let m = \<lparr>msg_timeout_ms = t, msg_timestamp = ts, msg_attemps = att, msg_id = ident,
                    msg_body = body\<rparr>;
               (cmds, after) = h_on_msg H h m;
               p1 = fold context_send cmds (p\<lparr>p_handled := p_handled p @ [m]\<rparr>) in
           case after of
             None \<Rightarrow> panicked i p1
           | Some h' \<Rightarrow> release i (CLock h') p1))"

definition consumer_close :: "'h handlers \<Rightarrow> nat \<Rightarrow> 'h \<Rightarrow> 'h pool \<Rightarrow> 'h pool" where
  "consumer_close H i h p =
     (let (cmds, after) = h_on_close H h;
          p1 = fold context_send cmds (p\<lparr>p_closed := Suc (p_closed p)\<rparr>) in
      case after of
        None \<Rightarrow> panicked i p1
      | Some h' \<Rightarrow> release i Ended p1)"

definition producer_lock :: "nat \<Rightarrow> 'h pool \<Rightarrow> 'h pool" where
  "producer_lock i =
     with_lock i (\<lambda>p. if \<not> p_connected p then goto i Ended p else hold i PHold p)"

definition producer_publish :: "'h handlers \<Rightarrow> nat \<Rightarrow> 'h pool \<Rightarrow> 'h pool" where
  "producer_publish H i p =
     (let p1 = p\<lparr>p_published := Suc (p_published p)\<rparr> in
      case h_publish H (p_published p) of
        None \<Rightarrow> panicked i p1
      | Some c \<Rightarrow> release i PLock (context_send (RawCmd c) p1))"

text \<open>
  The waker takes one unit off the sentinel and calls \<open>set_readiness\<close>. An error is only logged:
  nothing is due then, and the thread goes on as after a success.
\<close>

definition waker_recv :: "ext \<Rightarrow> nat \<Rightarrow> 'h pool \<Rightarrow> 'h pool" where
  "waker_recv X i p =
     (case ch_try_recv (p_sentinel p) of
        (None, rest) \<Rightarrow> p
      | (Some _, rest) \<Rightarrow>
          (let p1 = p\<lparr>p_sentinel := rest\<rparr> in
           goto i SLock
             (if x_set_readiness X (p_wakes p + p_wake_errs p)
              then p1\<lparr>p_wakes := Suc (p_wakes p)\<rparr>
              else p1\<lparr>p_wake_errs := Suc (p_wake_errs p)\<rparr>)))"

text \<open>
  The closer waits for a request of the user. When the user has dropped the sending end, \<open>recv\<close>
  fails at once as soon as the channel is empty, and the thread goes on without a request.
\<close>

definition closer_recv :: "nat \<Rightarrow> 'h pool \<Rightarrow> 'h pool" where
  "closer_recv i p =
     (case ch_try_recv (p_in_cmd p) of
        (None, rest) \<Rightarrow> if p_user_gone p then goto i MLock p else p
      | (Some _, rest) \<Rightarrow> goto i MLock (p\<lparr>p_in_cmd := rest, p_close := ch_send 1 (p_close p)\<rparr>))"

definition waker_lock :: "nat \<Rightarrow> 'h thread \<Rightarrow> 'h pool \<Rightarrow> 'h pool" where
  "waker_lock i again =
     with_lock i (\<lambda>p. if \<not> p_connected p then goto i Ended p else goto i again p)"

definition run_thread :: "ext \<Rightarrow> 'h handlers \<Rightarrow> nat \<Rightarrow> 'h pool \<Rightarrow> 'h pool" where
  "run_thread X H i p =
     (if length (p_threads p) \<le> i then p
      else case p_threads p ! i of
        CLock h \<Rightarrow> consumer_lock i h p
      | CRecv h \<Rightarrow> consumer_recv i h p
      | CHandle h t b \<Rightarrow> consumer_handle X H i h t b p
      | CClose h \<Rightarrow> consumer_close H i h p
      | PLock \<Rightarrow> producer_lock i p
      | PHold \<Rightarrow> producer_publish H i p
      | SRecv \<Rightarrow> waker_recv X i p
      | SLock \<Rightarrow> waker_lock i SRecv p
      | MRecv \<Rightarrow> closer_recv i p
      | MLock \<Rightarrow> waker_lock i MRecv p
      | Ended \<Rightarrow> p
      | Dead \<Rightarrow> p)"

section \<open>Schedules\<close>

text \<open>
  What can happen next: a thread runs, the event loop delivers a message to the readers or
  takes the commands that wait, or the user sends a request or drops its end of the channel,
  after which it can send no more.
\<close>

datatype action = Run nat | Deliver bytes_msg | TakeCmds | UserCmd conn_msg | HangUp

definition act :: "ext \<Rightarrow> 'h handlers \<Rightarrow> action \<Rightarrow> 'h pool \<Rightarrow> 'h pool" where
  "act X H a p =
     (case a of
        Run i \<Rightarrow> run_thread X H i p
      | Deliver m \<Rightarrow> p\<lparr>p_msgs := ch_send m (p_msgs p)\<rparr>
      | TakeCmds \<Rightarrow> p\<lparr>p_cmds := snd (ch_try_iter (p_cmds p))\<rparr>
      | UserCmd m \<Rightarrow> if p_user_gone p then p else p\<lparr>p_in_cmd := ch_send m (p_in_cmd p)\<rparr>
      | HangUp \<Rightarrow> p\<lparr>p_user_gone := True\<rparr>)"

definition schedule :: "ext \<Rightarrow> 'h handlers \<Rightarrow> action list \<Rightarrow> 'h pool \<Rightarrow> 'h pool" where
  "schedule X H = fold (act X H)"

inductive pool_step :: "ext \<Rightarrow> 'h handlers \<Rightarrow> 'h pool \<Rightarrow> 'h pool \<Rightarrow> bool" for X H where
  "pool_step X H p (act X H a p)"

inductive_cases pool_stepE: "pool_step X H p q"

lemma schedule_steps: "(pool_step X H)\<^sup>*\<^sup>* p (schedule X H as p)"
proof (induction as arbitrary: p)
  case (Cons a as)
  have "pool_step X H p (act X H a p)" by (rule pool_step.intros)
  with Cons [of "act X H a p"] show ?case
    by (simp add: schedule_def converse_rtranclp_into_rtranclp)
qed (simp add: schedule_def)

end
