(* ===== verification/Examples.thy ===== *)
theory Examples
  imports Workers Client
begin

text \<open>
  The example programs: the reader of \<open>examples/consumer/src/main.rs\<close>, which finishes every
  message it is given, the producer of \<open>examples/producer/src/main.rs\<close>, which publishes 100
  messages with one MPUB, their \<open>main\<close> functions, and the RDY bookkeeping of
  \<open>examples/consumer/src/consumer.rs\<close>.
  The handlers they give to \<open>spawn\<close> and \<open>spawn_producer\<close> are \<open>example_handlers\<close>; the
  \<open>on_close\<close> is the default of the trait in \<open>src/reader.rs\<close>.
\<close>

definition default_on_close :: "'h \<Rightarrow> nsq_cmd list \<times> 'h option" where
  "default_on_close h = ([], Some h)"

definition my_reader_on_msg :: "unit \<Rightarrow> msg \<Rightarrow> nsq_cmd list \<times> unit option" where
  "my_reader_on_msg h m = ([Fin (msg_id m)], Some h)"

definition my_producer_msgs :: "bytes list" where
  "my_producer_msgs = map (\<lambda>i. as_bytes (''msg-'' @ fmt_nat i)) [0..<100]"

definition my_producer_publish :: cmd where
  "my_producer_publish = as_cmd (Mpub ''test'' my_producer_msgs)"

definition example_handlers :: "unit handlers" where
  "example_handlers =
     \<lparr>h_on_msg = my_reader_on_msg, h_on_close = default_on_close,
      h_publish = (\<lambda>n. Some my_producer_publish)\<rparr>"

text \<open>
  What the \<open>main\<close> functions build before they call \<open>run\<close>: a client and the threads spawned so
  far. \<open>host\<close> is the name of the machine, if it has one.
\<close>

definition consumer_main :: "string option \<Rightarrow> client \<times> unit pool" where
  "consumer_main host =
     (client_new ''test'' ''test'' ''tangram-monitor.tngrm.io:4150''
        (config_tls (config_default host)) None 500 6,
      spawn 8 () pool_new)"

definition producer_main :: "string option \<Rightarrow> client \<times> unit pool" where
  "producer_main host =
     (client_new [] [] ''tangram-monitor.tngrm.io:4150''
        (config_tls (config_default host)) None 500 6,
      spawn_producer 1 pool_new)"

section \<open>The RDY bookkeeping\<close>

record rdy_consumer =
  total_rdy :: u32
  c_rdy :: u32
  max_in_flight :: u32

definition rdy_consumer_new :: "u32 \<Rightarrow> u32 \<Rightarrow> rdy_consumer" where
  "rdy_consumer_new rdy max_in = \<lparr>total_rdy = 2500, c_rdy = rdy, max_in_flight = max_in\<rparr>"

definition set_rdy :: "bool \<Rightarrow> u32 \<Rightarrow> rdy_consumer \<Rightarrow> panic + rdy_consumer" where
  "set_rdy ovf n c =
     rbind (add_u32 ovf (total_rdy c) n) (\<lambda>tot.
     if max_in_flight c < tot then Inr c
     else rbind (add_u32 ovf (total_rdy c) n) (\<lambda>t. Inr (c\<lparr>total_rdy := t\<rparr>)))"

text \<open>
  \<open>set_rdy\<close> keeps the total within the limit. If the total of an example consumer is at
  most \<open>max_in_flight\<close>, it still is after any request that does not overflow, which either
  adds the request or leaves the consumer alone; a fresh consumer, whose total is 2500, is
  within its limit only if that is at least 2500.
\<close>

lemma set_rdy_within_limit:
  assumes "set_rdy ovf n c = Inr c'" "total_rdy c \<le> max_in_flight c"
  shows "total_rdy c' \<le> max_in_flight c' \<and> (c' = c \<or> total_rdy c' = total_rdy c + n) \<and>
    (total_rdy (rdy_consumer_new r m) \<le> max_in_flight (rdy_consumer_new r m)) = (2500 \<le> m)"
  using assms
  by (auto simp: set_rdy_def add_u32_def rdy_consumer_new_def not_less split: if_splits)

section \<open>The batch of the producer\<close>

lemma length_concat_le:
  "\<forall>x \<in> set xs. length x \<le> k \<Longrightarrow> length (concat xs) \<le> k * length xs"
  by (induction xs) auto

lemma fmt_nat_short: "n < 100 \<Longrightarrow> length (fmt_nat n) \<le> 2"
  by (subst fmt_nat.simps, subst fmt_nat.simps) auto

lemma my_producer_batch: "length my_producer_msgs = 100" "mmsg_ok my_producer_msgs"
proof -
  show len: "length my_producer_msgs = 100" by (simp add: my_producer_msgs_def)
  have "length (concat (map wire_msg my_producer_msgs)) \<le> 10 * length (map wire_msg my_producer_msgs)"
    by (rule length_concat_le) (auto simp: my_producer_msgs_def wire_msg_def dest!: fmt_nat_short)
  then show "mmsg_ok my_producer_msgs" by (simp add: mmsg_ok_def len)
qed

text \<open>
  The server reads the example producer's batch as it was built: one MPUB to the topic
  \<open>test\<close> with 100 messages, whatever follows it in the stream.
\<close>

lemma example_batch_on_wire:
  "parse_command (wire_cmd (RawCmd my_producer_publish) @ rest) =
     Some (''MPUB test'', my_producer_msgs, rest) \<and>
   length my_producer_msgs = 100 \<and> my_producer_msgs ! 42 = as_bytes (''msg-'' @ fmt_nat 42)"
proof -
  have "2 \<le> length my_producer_msgs" by (simp add: my_producer_batch)
  then have ok: "well_formed_cmd (Mpub ''test'' my_producer_msgs)" by simp
  have "body_ok my_producer_msgs"
    using my_producer_batch body_ok_many [of my_producer_msgs] by simp
  then have "cmd_ok (Mpub ''test'' my_producer_msgs)" by (simp add: cmd_ok_def)
  from parse_command_wire [OF ok this, of rest] show ?thesis
    by (simp add: my_producer_publish_def my_producer_batch(1))
      (simp add: my_producer_msgs_def)
qed

end
