(* ===== verification/Workers_Props.thy ===== *)
theory Workers_Props
  imports Examples Conn_Props
begin

text \<open>
  What the threads guarantee under every interleaving: \<open>lock_inv\<close> (the guard of \<open>CONNECTED\<close>
  is held by at most one thread), \<open>close_inv\<close> (one stop at most), \<open>queue_inv\<close> (messages are
  taken and handled in the order in which they were delivered) and \<open>wake_inv\<close> (one unit in the
  sentinel or one call of \<open>set_readiness\<close> per command), each an instance of \<open>invariant_system\<close>.
\<close>

section \<open>What the context leaves alone\<close>

lemma fold_context_send [simp]:
  "p_threads (fold context_send cs p) = p_threads p"
  "p_holder (fold context_send cs p) = p_holder p"
  "p_connected (fold context_send cs p) = p_connected p"
  "p_poisoned (fold context_send cs p) = p_poisoned p"
  "p_msgs (fold context_send cs p) = p_msgs p"
  "p_taken (fold context_send cs p) = p_taken p"
  "p_handled (fold context_send cs p) = p_handled p"
  "p_closed (fold context_send cs p) = p_closed p"
  "p_wakes (fold context_send cs p) = p_wakes p"
  "p_wake_errs (fold context_send cs p) = p_wake_errs p"
  "p_published (fold context_send cs p) = p_published p"
  "p_in_cmd (fold context_send cs p) = p_in_cmd p"
  "p_user_gone (fold context_send cs p) = p_user_gone p"
  "p_close (fold context_send cs p) = p_close p"
  "p_sent (fold context_send cs p) = p_sent p @ map as_cmd cs"
  "p_cmds (fold context_send cs p) = p_cmds p @ map as_cmd cs"
  "length (p_sentinel (fold context_send cs p)) = length (p_sentinel p) + length cs"
  by (induction cs arbitrary: p) (simp_all add: context_send_def ch_send_def)

lemma context_send_fields [simp]:
  "p_threads (context_send a p) = p_threads p"
  "p_holder (context_send a p) = p_holder p"
  "p_connected (context_send a p) = p_connected p"
  "p_poisoned (context_send a p) = p_poisoned p"
  "p_msgs (context_send a p) = p_msgs p"
  "p_taken (context_send a p) = p_taken p"
  "p_handled (context_send a p) = p_handled p"
  "p_closed (context_send a p) = p_closed p"
  "p_wakes (context_send a p) = p_wakes p"
  "p_wake_errs (context_send a p) = p_wake_errs p"
  "p_published (context_send a p) = p_published p"
  "p_in_cmd (context_send a p) = p_in_cmd p"
  "p_user_gone (context_send a p) = p_user_gone p"
  "p_close (context_send a p) = p_close p"
  "p_sent (context_send a p) = p_sent p @ [as_cmd a]"
  "length (p_sentinel (context_send a p)) = Suc (length (p_sentinel p))"
  by (simp_all add: context_send_def ch_send_def)

lemmas thread_step_defs =
  consumer_lock_def consumer_recv_def consumer_handle_def consumer_close_def producer_lock_def
  producer_publish_def waker_recv_def closer_recv_def waker_lock_def with_lock_def hold_def
  release_def panicked_def goto_def Let_def

lemma run_thread_length [simp]: "length (p_threads (run_thread X H i p)) = length (p_threads p)"
  by (cases "length (p_threads p) \<le> i"; cases "p_threads p ! i")
    (auto simp: run_thread_def thread_step_defs split: option.splits bytes_msg.splits prod.splits sum.splits)

section \<open>Mutual exclusion\<close>

definition lock_inv :: "'h pool \<Rightarrow> bool" where
  "lock_inv p \<longleftrightarrow>
     (\<forall>j < length (p_threads p). holding (p_threads p ! j) \<longleftrightarrow> p_holder p = Some j) \<and>
     (\<forall>j. p_holder p = Some j \<longrightarrow> j < length (p_threads p))"

lemma lock_inv_at:
  "lock_inv p \<Longrightarrow> i < length (p_threads p) \<Longrightarrow> holding (p_threads p ! i) \<longleftrightarrow> p_holder p = Some i"
  by (simp add: lock_inv_def)

lemma run_thread_lock: "lock_inv p \<Longrightarrow> lock_inv (run_thread X H i p)"
proof (cases "length (p_threads p) \<le> i")
  case False
  assume inv: "lock_inv p"
  with False have at: "holding (p_threads p ! i) \<longleftrightarrow> p_holder p = Some i"
    by (simp add: lock_inv_at)
  show ?thesis
    using False inv at
    by (cases "p_threads p ! i")
      (auto simp: run_thread_def thread_step_defs lock_inv_def nth_list_update
        split: option.splits bytes_msg.splits prod.splits sum.splits if_splits)
qed (simp add: run_thread_def)

lemma act_lock: "lock_inv p \<Longrightarrow> lock_inv (act X H a p)"
  by (cases a) (simp_all add: act_def run_thread_lock, simp_all add: lock_inv_def)

section \<open>Pools that have not started\<close>

definition fresh :: "'h pool \<Rightarrow> bool" where
  "fresh p \<longleftrightarrow> p_connected p \<and> \<not> p_poisoned p \<and> p_holder p = None \<and> p_msgs p = [] \<and>
     p_sentinel p = [] \<and> p_taken p = [] \<and> p_handled p = [] \<and> p_closed p = 0 \<and>
     p_sent p = [] \<and> p_wakes p = 0 \<and> p_wake_errs p = 0 \<and>
     list_all (\<lambda>th. \<not> holding th) (p_threads p)"

lemma fresh_spawn [intro]:
  "fresh pool_new"
  "fresh p \<Longrightarrow> fresh (spawn n reader p)"
  "fresh p \<Longrightarrow> fresh (spawn_producer n p)"
  "fresh p \<Longrightarrow> fresh (spawn_wakers p)"
  by (auto simp: fresh_def pool_new_def spawn_def spawn_producer_def spawn_wakers_def list_all_iff)

lemma fresh_lock: "fresh p \<Longrightarrow> lock_inv p"
  by (auto simp: fresh_def lock_inv_def list_all_length)

section \<open>One stop at most\<close>

text \<open>The state of the thread that holds the guard.\<close>

definition holder_state :: "'h pool \<Rightarrow> 'h thread" where
  "holder_state p = (case p_holder p of None \<Rightarrow> Ended | Some i \<Rightarrow> p_threads p ! i)"

lemma holder_state_arrivals [simp]:
  "holder_state (p\<lparr>p_msgs := ms\<rparr>) = holder_state p"
  "holder_state (p\<lparr>p_cmds := cs\<rparr>) = holder_state p"
  "holder_state (p\<lparr>p_in_cmd := us\<rparr>) = holder_state p"
  "holder_state (p\<lparr>p_user_gone := g\<rparr>) = holder_state p"
  by (simp_all add: holder_state_def cong: option.case_cong)

definition close_inv :: "'h pool \<Rightarrow> bool" where
  "close_inv p \<longleftrightarrow> lock_inv p \<and>
     (if p_connected p then p_closed p = 0 \<and> (\<forall>h. holder_state p \<noteq> CClose h)
      else case holder_state p of
          CClose h \<Rightarrow> p_closed p = 0
        | CRecv h \<Rightarrow> False
        | CHandle h t b \<Rightarrow> False
        | PHold \<Rightarrow> False
        | _ \<Rightarrow> p_closed p = 1)"

lemma run_thread_close:
  assumes "close_inv p"
  shows "close_inv (run_thread X H i p)"
proof (cases "length (p_threads p) \<le> i")
  case False
  have lock: "lock_inv p" "lock_inv (run_thread X H i p)"
    using assms by (simp_all add: close_inv_def run_thread_lock)
  have at: "holding (p_threads p ! i) \<longleftrightarrow> p_holder p = Some i"
    using False lock(1) by (simp add: lock_inv_at)
  show ?thesis
    unfolding close_inv_def
  proof (intro conjI lock(2), cases "p_threads p ! i")
  qed (use False assms at in \<open>auto simp: run_thread_def thread_step_defs close_inv_def
      holder_state_def nth_list_update
      split: option.splits bytes_msg.splits prod.splits sum.splits if_splits thread.splits\<close>)
qed (simp add: run_thread_def assms)

lemma act_close: "close_inv p \<Longrightarrow> close_inv (act X H a p)"
  by (cases a)
    (simp_all add: act_def run_thread_close, simp_all add: close_inv_def lock_inv_def cong: thread.case_cong del: One_nat_def)

lemma fresh_close: "fresh p \<Longrightarrow> close_inv p"
  by (simp add: close_inv_def fresh_lock) (simp add: fresh_def holder_state_def)

interpretation closing: invariant_system fresh "pool_step X H" close_inv for X H
  by unfold_locales (auto intro: fresh_close act_close elim!: pool_stepE)

section \<open>Messages in order\<close>

definition as_msg :: "ext \<Rightarrow> bytes_msg \<Rightarrow> msg option" where
  "as_msg X m =
     (case m of BytesMsg t b \<Rightarrow>
        (case decode_msg X b of
           Inl _ \<Rightarrow> None
         | Inr (ts, att, ident, body) \<Rightarrow>
             Some \<lparr>msg_timeout_ms = t, msg_timestamp = ts, msg_attemps = att, msg_id = ident,
                   msg_body = body\<rparr>))"

text \<open>The message that is in a consumer's hand.\<close>

definition in_hand :: "'h pool \<Rightarrow> bytes_msg list" where
  "in_hand p = (case holder_state p of CHandle h t b \<Rightarrow> [BytesMsg t b] | _ \<Rightarrow> [])"

definition queue_inv :: "ext \<Rightarrow> 'h pool \<Rightarrow> bool" where
  "queue_inv X p \<longleftrightarrow> lock_inv p \<and> (p_poisoned p \<longrightarrow> p_holder p = None) \<and>
     (\<exists>lost. length lost \<le> (if p_poisoned p then 1 else 0) \<and>
        map (as_msg X) (contents (p_taken p)) =
          map Some (p_handled p) @ map (as_msg X) (in_hand p) @ lost)"

lemma in_hand_None [simp]: "p_holder p = None \<Longrightarrow> in_hand p = []"
  by (simp add: in_hand_def holder_state_def)

lemma run_thread_queue:
  assumes "queue_inv X p"
  shows "queue_inv X (run_thread X H i p)"
proof (cases "length (p_threads p) \<le> i")
  case False
  have lock: "lock_inv p" "lock_inv (run_thread X H i p)"
    using assms by (simp_all add: queue_inv_def run_thread_lock)
  have at: "holding (p_threads p ! i) \<longleftrightarrow> p_holder p = Some i"
    using False lock(1) by (simp add: lock_inv_at)
  show ?thesis
    unfolding queue_inv_def
  proof (intro conjI lock(2), goal_cases)
    case 1
    then show ?case
      by (cases "p_threads p ! i") (use False assms at in \<open>auto simp: run_thread_def
        thread_step_defs queue_inv_def
        split: option.splits bytes_msg.splits prod.splits sum.splits if_splits\<close>)
  next
    case 2
    then show ?case
      by (cases "p_threads p ! i") (use False assms at in \<open>auto simp: run_thread_def
        thread_step_defs queue_inv_def in_hand_def holder_state_def nth_list_update as_msg_def
        contents_def
        split: option.splits bytes_msg.splits prod.splits sum.splits if_splits thread.splits\<close>)
  qed
qed (simp add: run_thread_def assms)

lemma act_queue: "queue_inv X p \<Longrightarrow> queue_inv X (act X H a p)"
  by (cases a) (simp_all add: act_def run_thread_queue,
      simp_all add: queue_inv_def lock_inv_def in_hand_def)

lemma fresh_queue: "fresh p \<Longrightarrow> queue_inv X p"
  by (simp add: queue_inv_def fresh_lock) (simp add: fresh_def contents_def)

interpretation queueing: invariant_system fresh "pool_step X H" "queue_inv X" for X H
  by unfold_locales (auto intro: fresh_queue act_queue elim!: pool_stepE)

text \<open>What has been delivered is what has been taken and what still waits.\<close>

definition delivered_in :: "action list \<Rightarrow> bytes_msg list" where
  "delivered_in as = concat (map (\<lambda>a. case a of Deliver m \<Rightarrow> [m] | _ \<Rightarrow> []) as)"

lemma run_thread_taken:
  "p_taken (run_thread X H i p) @ p_msgs (run_thread X H i p) = p_taken p @ p_msgs p"
proof (cases "length (p_threads p) \<le> i")
  case False
  then show ?thesis
    by (cases "p_threads p ! i"; cases "p_msgs p")
      (auto simp: run_thread_def thread_step_defs
        split: option.splits bytes_msg.splits prod.splits sum.splits)
qed (simp add: run_thread_def)

lemma schedule_taken:
  "p_taken (schedule X H as p) @ p_msgs (schedule X H as p) =
     p_taken p @ p_msgs p @ delivered_in as"
proof (induction as arbitrary: p)
  case (Cons a as)
  have "p_taken (act X H a p) @ p_msgs (act X H a p) @ delivered_in as =
      p_taken p @ p_msgs p @ delivered_in (a # as)"
    using run_thread_taken [of X H _ p]
    by (cases a) (auto simp: act_def delivered_in_def ch_send_def simp flip: append_assoc)
  with Cons.IH [of "act X H a p"] show ?case by (simp add: schedule_def)
qed (simp add: schedule_def delivered_in_def)

section \<open>Wake-ups\<close>

definition wake_inv :: "'h pool \<Rightarrow> bool" where
  "wake_inv p \<longleftrightarrow> p_wakes p + p_wake_errs p + length (p_sentinel p) = length (p_sent p)"

lemma run_thread_wake: "wake_inv p \<Longrightarrow> wake_inv (run_thread X H i p)"
proof (cases "length (p_threads p) \<le> i")
  case False
  assume "wake_inv p"
  with False show ?thesis
    by (cases "p_threads p ! i"; cases "p_sentinel p")
      (auto simp: run_thread_def thread_step_defs wake_inv_def
        split: option.splits bytes_msg.splits prod.splits sum.splits)
qed (simp add: run_thread_def)

interpretation waking: invariant_system fresh "pool_step X H" wake_inv for X H
  by unfold_locales
    (auto simp: fresh_def wake_inv_def act_def elim!: pool_stepE split: action.splits
      dest: run_thread_wake [unfolded wake_inv_def])

section \<open>After the stop, after a panic, and while a consumer waits\<close>

lemma stopped_stays:
  assumes "close_inv p" "\<not> p_connected p"
  shows "\<not> p_connected (act X H a p) \<and> p_handled (act X H a p) = p_handled p \<and>
    p_published (act X H a p) = p_published p"
proof (cases a)
  case (Run i)
  show ?thesis
  proof (cases "length (p_threads p) \<le> i")
    case False
    have "lock_inv p" using assms(1) by (simp add: close_inv_def)
    with False have at: "holding (p_threads p ! i) \<longleftrightarrow> p_holder p = Some i" by (simp add: lock_inv_at)
    have pub: "p_published (fold context_send cs q) = p_published q" for cs and q :: "'a pool"
      by (induction cs arbitrary: q) (simp_all add: context_send_def)
    show ?thesis
      using Run False at assms
      by (cases "p_threads p ! i")
        (auto simp: act_def run_thread_def thread_step_defs close_inv_def holder_state_def pub
          split: option.splits bytes_msg.splits prod.splits sum.splits)
  qed (use Run assms(2) in \<open>simp add: act_def run_thread_def\<close>)
qed (use assms in \<open>simp_all add: act_def\<close>)

lemma schedule_stopped:
  "close_inv p \<Longrightarrow> \<not> p_connected p \<Longrightarrow>
     \<not> p_connected (schedule X H as p) \<and> p_handled (schedule X H as p) = p_handled p \<and>
     p_published (schedule X H as p) = p_published p"
proof (induction as arbitrary: p)
  case (Cons a as)
  with stopped_stays [of p X H a] act_close [of p X H a] show ?case
    by (simp add: schedule_def)
qed (simp add: schedule_def)

definition frozen :: "'h pool \<Rightarrow> 'h pool \<Rightarrow> bool" where
  "frozen p q \<longleftrightarrow> p_handled q = p_handled p \<and> p_closed q = p_closed p \<and> p_sent q = p_sent p"

lemma poisoned_stays:
  assumes "lock_inv p" "p_poisoned p" "p_holder p = None"
  shows "p_poisoned (act X H a p) \<and> p_holder (act X H a p) = None \<and> frozen p (act X H a p)"
proof (cases a)
  case (Run i)
  show ?thesis
  proof (cases "length (p_threads p) \<le> i")
    case False
    with assms(1) have at: "holding (p_threads p ! i) \<longleftrightarrow> p_holder p = Some i" by (simp add: lock_inv_at)
    show ?thesis
      using Run False at assms(2,3)
      by (cases "p_threads p ! i")
        (auto simp: act_def run_thread_def thread_step_defs frozen_def split: option.splits prod.splits)
  qed (use Run assms in \<open>simp add: act_def run_thread_def frozen_def\<close>)
qed (use assms in \<open>simp_all add: act_def frozen_def\<close>)

lemma schedule_poisoned:
  "lock_inv p \<Longrightarrow> p_poisoned p \<Longrightarrow> p_holder p = None \<Longrightarrow> frozen p (schedule X H as p)"
proof (induction as arbitrary: p)
  case (Cons a as)
  with poisoned_stays [of p X H a] act_lock [of p X H a] Cons.IH [of "act X H a p"] show ?case
    by (simp add: schedule_def frozen_def)
qed (simp add: schedule_def frozen_def)

text \<open>A consumer that waits for a message with the guard held.\<close>

definition idle :: "nat \<Rightarrow> 'h \<Rightarrow> 'h pool \<Rightarrow> bool" where
  "idle i h p \<longleftrightarrow> lock_inv p \<and> p_holder p = Some i \<and> p_threads p ! i = CRecv h \<and> p_msgs p = []"

definition ready_wakers :: "'h pool \<Rightarrow> nat set" where
  "ready_wakers p = {j. j < length (p_threads p) \<and> p_threads p ! j = SRecv}"

lemma idle_stays:
  assumes "idle i h p" "\<And>m. a \<noteq> Deliver m"
  shows "idle i h (act X H a p) \<and>
    p_wakes (act X H a p) + card (ready_wakers (act X H a p)) \<le> p_wakes p + card (ready_wakers p)"
proof (cases a)
  case (Run j)
  show ?thesis
  proof (cases "length (p_threads p) \<le> j")
    case True
    with Run assms(1) show ?thesis by (simp add: act_def run_thread_def)
  next
    case False
    have lock: "lock_inv (run_thread X H j p)" "holding (p_threads p ! j) \<longleftrightarrow> j = i"
      using assms(1) False by (auto simp: idle_def run_thread_lock lock_inv_at)
    have "run_thread X H j p = p \<or> p_threads p ! j = SRecv \<and> p_sentinel p \<noteq> [] \<or>
        p_threads p ! j = MRecv \<and> (p_in_cmd p \<noteq> [] \<or> p_user_gone p)"
    proof (cases "p_threads p ! j")
      case SRecv
      then show ?thesis by (cases "p_sentinel p") (simp_all add: run_thread_def waker_recv_def)
    next
      case MRecv
      then show ?thesis by (cases "p_in_cmd p") (simp_all add: run_thread_def closer_recv_def)
    qed (use assms(1) lock(2) in \<open>simp_all add: run_thread_def thread_step_defs idle_def\<close>)
    then consider "p_threads p ! j = SRecv" "p_sentinel p \<noteq> []" | "run_thread X H j p = p"
      | "p_threads p ! j = MRecv" "p_in_cmd p \<noteq> [] \<or> p_user_gone p"
      by blast
    then show ?thesis
    proof cases
      case 1
      then have ij: "i \<noteq> j" using lock(2) by auto
      have "ready_wakers (run_thread X H j p) = ready_wakers p - {j}"
        using 1 False by (cases "p_sentinel p")
          (auto simp: run_thread_def thread_step_defs ready_wakers_def nth_list_update split: if_splits)
      moreover have "j \<in> ready_wakers p" using 1 False by (simp add: ready_wakers_def)
      moreover have "finite (ready_wakers p)" by (simp add: ready_wakers_def)
      ultimately have "Suc (card (ready_wakers (run_thread X H j p))) = card (ready_wakers p)"
        by (metis card_Suc_Diff1)
      with 1 ij False assms(1) lock(1) show ?thesis
        by (cases "p_sentinel p")
          (auto simp: Run act_def run_thread_def thread_step_defs idle_def)
    next
      case 2
      with assms(1) show ?thesis by (simp add: Run act_def)
    next
      case 3
      then have ij: "i \<noteq> j" using lock(2) by auto
      have "ready_wakers (run_thread X H j p) = ready_wakers p"
        using 3 False by (cases "p_in_cmd p")
          (auto simp: run_thread_def thread_step_defs ready_wakers_def nth_list_update split: if_splits)
      with 3 ij False assms(1) lock(1) show ?thesis
        by (cases "p_in_cmd p")
          (auto simp: Run act_def run_thread_def thread_step_defs idle_def)
    qed
  qed
qed (use assms in \<open>simp_all add: act_def idle_def lock_inv_def ready_wakers_def\<close>)

lemma schedule_idle:
  "idle i h p \<Longrightarrow> delivered_in as = [] \<Longrightarrow>
     idle i h (schedule X H as p) \<and>
     p_wakes (schedule X H as p) + card (ready_wakers (schedule X H as p)) \<le>
       p_wakes p + card (ready_wakers p)"
proof (induction as arbitrary: p)
  case (Cons a as)
  then have "\<And>m. a \<noteq> Deliver m" "delivered_in as = []"
    by (auto simp: delivered_in_def)
  with Cons.prems idle_stays [of i h p a X H] Cons.IH [of "act X H a p"] show ?case
    by (auto simp: schedule_def)
qed (simp add: schedule_def)

text \<open>
  A user that has dropped its end of the channel: the closer thread never blocks again but goes
  round for nothing, and no close request reaches the event loop any more.
\<close>

lemma hung_up_closer_spins:
  assumes "i < length (p_threads p)" "p_threads p ! i = MRecv" "p_user_gone p" "p_in_cmd p = []"
    and "p_holder p = None" "\<not> p_poisoned p" "p_connected p"
  shows "run_thread X H i p \<noteq> p" "run_thread X H i (run_thread X H i p) = p"
proof -
  have step: "run_thread X H i p = p\<lparr>p_threads := (p_threads p)[i := MLock]\<rparr>"
    using assms(1-4) by (simp add: run_thread_def closer_recv_def goto_def)
  show "run_thread X H i p \<noteq> p"
  proof
    assume "run_thread X H i p = p"
    then have "p_threads (p\<lparr>p_threads := (p_threads p)[i := MLock]\<rparr>) ! i = p_threads p ! i"
      by (simp only: step)
    with assms(1,2) show False by simp
  qed
  have "(p_threads p)[i := MRecv] = p_threads p" using assms(2) by (metis list_update_id)
  then show "run_thread X H i (run_thread X H i p) = p"
    unfolding step using assms by (simp add: run_thread_def waker_lock_def with_lock_def goto_def)
qed

lemma hung_up_never_closes:
  assumes "p_user_gone p" "p_in_cmd p = []"
  shows "p_user_gone (act X H a p)" "p_in_cmd (act X H a p) = []" "p_close (act X H a p) = p_close p"
proof -
  have "p_user_gone (run_thread X H i p) \<and> p_in_cmd (run_thread X H i p) = [] \<and>
      p_close (run_thread X H i p) = p_close p" for i
    by (cases "length (p_threads p) \<le> i"; cases "p_threads p ! i")
      (use assms in \<open>auto simp: run_thread_def thread_step_defs split: option.splits bytes_msg.splits
        prod.splits sum.splits\<close>)
  with assms show "p_user_gone (act X H a p)" "p_in_cmd (act X H a p) = []" "p_close (act X H a p) = p_close p"
    by (cases a; simp add: act_def)+
qed

section \<open>The properties\<close>

lemma schedule_reaches:
  assumes "fresh p"
  shows "lock_inv (schedule X H as p)" "close_inv (schedule X H as p)"
    "queue_inv X (schedule X H as p)" "wake_inv (schedule X H as p)"
  using closing.inv_reachable [OF assms schedule_steps] queueing.inv_reachable [OF assms schedule_steps]
    waking.inv_reachable [OF assms schedule_steps]
  by (simp_all add: close_inv_def)

text \<open>The reader of the example, two of them, with the wakers, and messages for them.\<close>

definition demo_pool :: "unit pool" where
  "demo_pool = spawn_wakers (spawn 2 () pool_new)"

definition demo_act :: "action list \<Rightarrow> unit pool" where
  "demo_act as = schedule demo_ext example_handlers as demo_pool"

definition demo_bytes :: "string \<Rightarrow> bytes" where
  "demo_bytes ident = encode_msg 5 1 ident [7]"

lemma demo_pool_fresh: "fresh demo_pool"
  unfolding demo_pool_def by (intro fresh_spawn)

lemma demo_decode:
  "length ident = 16 \<Longrightarrow> valid_str ident \<Longrightarrow>
     decode_msg demo_ext (demo_bytes ident) = Inr (5, 1, ident, [7])"
  unfolding demo_bytes_def by (rule decode_encode)

lemma demo_bytes_nonempty [simp]: "demo_bytes ident \<noteq> []"
  by (simp add: demo_bytes_def encode_msg_def be_bytes_def)

text \<open>
  C18: handlers never run at the same time. However many threads have been spawned and however
  they interleave, at most one of them holds the guard of \<open>CONNECTED\<close>, and a thread receives,
  decodes and handles a message, publishes or closes only with that guard; so the threads do
  not run the handlers in parallel.
\<close>

theorem handlers_never_overlap:
  assumes "fresh p" "i < length (p_threads (schedule X H as p))"
    and "j < length (p_threads (schedule X H as p))"
    and "holding (p_threads (schedule X H as p) ! i)"
    and "holding (p_threads (schedule X H as p) ! j)"
  shows "i = j"
  using schedule_reaches(1) [OF assms(1), of X H as] assms(2-5)
  by (metis lock_inv_at option.inject)

theorem handlers_never_overlap_witness:
  "holding (p_threads (demo_act [Run 1, Run 0]) ! 1) \<and>
   filter (\<lambda>i. holding (p_threads (demo_act [Run 1, Run 0]) ! i)) [0..<4] = [1]"
proof -
  have p: "p_threads (demo_act [Run 1, Run 0]) = [CLock (), CRecv (), SRecv, MRecv]"
    by (simp add: demo_act_def schedule_def act_def run_thread_def thread_step_defs demo_pool_def
        spawn_def spawn_wakers_def pool_new_def numeral_2_eq_2)
  have only: "i = 1" if "i < 4" "holding (p_threads (demo_act [Run 1, Run 0]) ! i)" for i
    by (rule handlers_never_overlap [OF demo_pool_fresh, of _ demo_ext example_handlers "[Run 1, Run 0]"])
      (use that p in \<open>simp_all add: demo_act_def\<close>)
  have "filter (\<lambda>i. holding (p_threads (demo_act [Run 1, Run 0]) ! i)) [0..<4] =
      filter (\<lambda>i. i = 1) [0..<4]"
    by (rule filter_cong [OF refl]) (use only p in auto)
  also have "\<dots> = [1]" by (simp add: upt_rec numeral_eq_Suc)
  finally show ?thesis using p by simp
qed

text \<open>
  The stop is final and happens once. \<open>on_close\<close> runs at most once in the process, however
  many consumers there are; from the moment a consumer has taken the stop message no message is
  handled and nothing is published any more, and the flag \<open>CONNECTED\<close> never becomes true
  again, so a client started later in the same process would handle nothing.
\<close>

lemma stop_is_final:
  assumes "fresh p"
  shows "p_closed (schedule X H as p) \<le> 1 \<and>
    (p_connected (schedule X H as p) \<or>
      (\<forall>bs. \<not> p_connected (schedule X H (as @ bs) p) \<and>
         p_handled (schedule X H (as @ bs) p) = p_handled (schedule X H as p) \<and>
         p_published (schedule X H (as @ bs) p) = p_published (schedule X H as p)))"
proof -
  let ?q = "schedule X H as p"
  have inv: "close_inv ?q" by (rule schedule_reaches(2) [OF assms])
  then have "p_closed ?q \<le> 1"
    by (auto simp: close_inv_def split: if_splits thread.splits)
  moreover have "schedule X H (as @ bs) p = schedule X H bs ?q" for bs
    by (simp add: schedule_def)
  ultimately show ?thesis using schedule_stopped [OF inv, of X H] by auto
qed

lemma stop_is_final_example:
  "let as = [Deliver (BytesMsg 0 []), Run 0, Run 0, Run 0] in
   p_closed (demo_act as) = 1 \<and> \<not> p_connected (demo_act as) \<and>
   (\<forall>bs. p_handled (demo_act (as @ bs)) = [])"
proof -
  let ?as = "[Deliver (BytesMsg 0 []), Run 0, Run 0, Run 0]"
  have q: "p_closed (demo_act ?as) = 1" "\<not> p_connected (demo_act ?as)" "p_handled (demo_act ?as) = []"
    by (simp_all add: demo_act_def schedule_def act_def run_thread_def thread_step_defs demo_pool_def
        spawn_def spawn_wakers_def pool_new_def numeral_2_eq_2 ch_send_def example_handlers_def
        default_on_close_def)
  have "p_connected (demo_act ?as) \<or> (\<forall>bs. p_handled (demo_act (?as @ bs)) = p_handled (demo_act ?as))"
    using stop_is_final [OF demo_pool_fresh, of demo_ext example_handlers ?as]
    unfolding demo_act_def by blast
  with q show ?thesis by (simp add: Let_def)
qed

text \<open>
  Messages are handled in the order in which they were delivered. With any number of
  consumers and any interleaving, the messages the handlers have been given are the decodings
  of an initial part of the delivered ones (the stop messages left out), none skipped, repeated
  or reordered; they are all of them when the queue is empty, no consumer has one in hand and
  no handler has panicked.
\<close>

lemma handled_in_delivery_order:
  assumes "fresh p" "q = schedule X H as p"
  shows "\<exists>rest. map (as_msg X) (contents (delivered_in as)) = map Some (p_handled q) @ rest \<and>
    (rest = [] \<or> p_poisoned q \<or> in_hand q \<noteq> [] \<or> p_msgs q \<noteq> [])"
proof -
  have all: "p_taken q @ p_msgs q = delivered_in as"
    using schedule_taken [of X H as p] assms by (simp add: fresh_def)
  from schedule_reaches(3) [OF assms(1), of X H as] assms(2)
  obtain lost where "length lost \<le> (if p_poisoned q then 1 else 0)"
      "map (as_msg X) (contents (p_taken q)) =
        map Some (p_handled q) @ map (as_msg X) (in_hand q) @ lost"
    by (auto simp: queue_inv_def)
  moreover from arg_cong [OF all, of contents] have "contents (delivered_in as) =
      contents (p_taken q) @ contents (p_msgs q)"
    by simp
  ultimately show ?thesis
    by (intro exI [of _ "map (as_msg X) (in_hand q) @ lost @ map (as_msg X) (contents (p_msgs q))"])
      (auto simp: contents_def split: if_splits)
qed

lemma handled_in_delivery_order_example:
  "let a = ''aaaaaaaaaaaaaaaa''; b = ''bbbbbbbbbbbbbbbb'';
       q = demo_act [Deliver (BytesMsg 9 (demo_bytes a)), Run 1, Deliver (BytesMsg 9 (demo_bytes b)),
             Run 0, Run 1, Run 1, Run 0, Run 0, Run 0] in
   map msg_id (p_handled q) = [a, b] \<and>
   map (as_msg demo_ext) [BytesMsg 9 (demo_bytes a), BytesMsg 9 (demo_bytes b)] =
     map Some (p_handled q)"
proof -
  let ?a = "''aaaaaaaaaaaaaaaa''" and ?b = "''bbbbbbbbbbbbbbbb''"
  let ?as = "[Deliver (BytesMsg 9 (demo_bytes ?a)), Run 1, Deliver (BytesMsg 9 (demo_bytes ?b)),
      Run 0, Run 1, Run 1, Run 0, Run 0, Run 0]"
  have id: "valid_str ?a" "valid_str ?b" by (simp_all add: valid_str_def utf8_ranges_def)
  have q: "map msg_id (p_handled (demo_act ?as)) = [?a, ?b]" "\<not> p_poisoned (demo_act ?as)"
      "p_msgs (demo_act ?as) = []" "in_hand (demo_act ?as) = []"
    by (simp_all add: demo_act_def schedule_def act_def run_thread_def thread_step_defs demo_pool_def
        spawn_def spawn_wakers_def pool_new_def numeral_2_eq_2 ch_send_def example_handlers_def
        my_reader_on_msg_def demo_decode id context_send_def)
  obtain rest where "map (as_msg demo_ext) (contents (delivered_in ?as)) =
      map Some (p_handled (demo_act ?as)) @ rest"
      "rest = [] \<or> p_poisoned (demo_act ?as) \<or> in_hand (demo_act ?as) \<noteq> [] \<or> p_msgs (demo_act ?as) \<noteq> []"
    using handled_in_delivery_order [OF demo_pool_fresh demo_act_def] by blast
  with q show ?thesis by (simp add: Let_def contents_def delivered_in_def)
qed

text \<open>
  C35: a short message stops everything. A consumer that is given a message of fewer than 26
  bytes panics while it holds the guard, which poisons the lock: from then on, in every
  interleaving, no message is handled, no command is sent and \<open>on_close\<close> is not called, so
  nothing tells the user's code that its threads are gone.
\<close>

theorem short_message_poisons:
  assumes "fresh p" "p_threads (schedule X H as p) ! i = CHandle h t b"
    and "i < length (p_threads (schedule X H as p))" "split_law X" "length b < 26"
  shows "p_poisoned (schedule X H (as @ [Run i]) p) \<and>
    (\<forall>bs. frozen (schedule X H as p) (schedule X H (as @ [Run i] @ bs) p))"
proof -
  let ?q = "schedule X H as p"
  have lock: "lock_inv ?q" by (rule schedule_reaches(1) [OF assms(1)])
  have "decode_msg X b = Inl SplitOutOfBounds" by (rule decode_msg_short [OF assms(4,5)])
  with assms(2,3) have step: "run_thread X H i ?q = panicked i ?q"
    by (simp add: run_thread_def consumer_handle_def)
  have after: "lock_inv (panicked i ?q)" "p_poisoned (panicked i ?q)" "p_holder (panicked i ?q) = None"
      "frozen ?q (panicked i ?q)"
    using run_thread_lock [OF lock, of X H i]
    by (simp_all add: step) (simp_all add: panicked_def release_def goto_def frozen_def)
  have "schedule X H (as @ [Run i] @ bs) p = schedule X H bs (panicked i ?q)" for bs
    using step by (simp add: schedule_def act_def)
  moreover have "frozen ?q (schedule X H bs (panicked i ?q))" for bs
    using schedule_poisoned [OF after(1-3), of X H bs] after(4) by (simp add: frozen_def)
  ultimately show ?thesis using after(2) step by (simp add: schedule_def act_def)
qed

theorem short_message_poisons_witness:
  "let as = [Deliver (BytesMsg 9 [1, 2, 3]), Run 0, Run 0] in
   p_poisoned (demo_act (as @ [Run 0])) \<and> (\<forall>bs. frozen (demo_act as) (demo_act (as @ [Run 0] @ bs)))"
proof -
  let ?as = "[Deliver (BytesMsg 9 [1, 2, 3]), Run 0, Run 0]"
  have th: "p_threads (demo_act ?as) = [CHandle () 9 [1, 2, 3], CLock (), SRecv, MRecv]"
    by (simp add: demo_act_def schedule_def act_def run_thread_def thread_step_defs demo_pool_def
        spawn_def spawn_wakers_def pool_new_def numeral_2_eq_2 ch_send_def)
  show ?thesis
    using short_message_poisons [OF demo_pool_fresh, of demo_ext example_handlers ?as 0 "()" 9 "[1, 2, 3]"] th
    by (simp add: demo_act_def Let_def)
qed

text \<open>
  C36: an idle consumer holds the wakers up. While a consumer waits for a message it keeps the
  guard, so each waker thread that is waiting for the sentinel can announce one more command to the
  poll at most and then waits for the guard as well: until another message arrives, the commands
  beyond the first that are waiting to be announced stay unannounced.
\<close>

theorem idle_consumer_blocks_wakers:
  assumes "idle i h p" "delivered_in as = []"
  shows "p_wakes (schedule X H as p) \<le> p_wakes p + card (ready_wakers p) \<and>
    idle i h (schedule X H as p)"
  using schedule_idle [OF assms, of X H] by simp

text \<open>Two messages are handled before the waker gets the guard back; one FIN stays unannounced.\<close>

theorem idle_consumer_blocks_wakers_witness:
  "let m = Deliver (BytesMsg 9 (demo_bytes ''aaaaaaaaaaaaaaaa''));
       as = [m, m, Run 0, Run 0, Run 0, Run 2, Run 0, Run 0, Run 0, Run 0] in
   p_sentinel (demo_act as) = [()] \<and> p_wakes (demo_act as) = 1 \<and>
   (\<forall>js. p_wakes (schedule demo_ext example_handlers (map Run js) (demo_act as)) \<le> 1)"
proof -
  let ?a = "''aaaaaaaaaaaaaaaa''"
  let ?m = "Deliver (BytesMsg 9 (demo_bytes ?a))"
  let ?as = "[?m, ?m, Run 0, Run 0, Run 0, Run 2, Run 0, Run 0, Run 0, Run 0]"
  have "valid_str ?a" by (simp add: valid_str_def utf8_ranges_def)
  then have q: "p_sentinel (demo_act ?as) = [()]" "p_wakes (demo_act ?as) = 1"
      "p_threads (demo_act ?as) = [CRecv (), CLock (), SLock, MRecv]"
      "p_holder (demo_act ?as) = Some 0" "p_msgs (demo_act ?as) = []"
    by (simp_all add: demo_act_def schedule_def act_def run_thread_def thread_step_defs demo_pool_def
        spawn_def spawn_wakers_def pool_new_def numeral_2_eq_2 ch_send_def example_handlers_def
        my_reader_on_msg_def demo_decode context_send_def)
  have "lock_inv (demo_act ?as)"
    unfolding demo_act_def by (rule schedule_reaches(1) [OF demo_pool_fresh])
  with q have "idle 0 () (demo_act ?as)" by (simp add: idle_def)
  moreover have "ready_wakers (demo_act ?as) = {}"
    using q(3) by (auto simp: ready_wakers_def nth_Cons split: nat.splits)
  moreover have "delivered_in (map Run js) = []" for js by (induction js) (auto simp: delivered_in_def)
  ultimately show ?thesis
    using q(1,2) idle_consumer_blocks_wakers [of 0 "()" "demo_act ?as" _ demo_ext example_handlers]
    by (simp add: Let_def)
qed

text \<open>
  C37: an empty message frame is taken for the stop. \<open>decode\<close> hands a MESSAGE frame without a
  payload to the readers unchanged; the consumer that receives it cannot tell it from the
  message with which the event loop ends the readers, so the server can end all handlers.
\<close>

theorem empty_frame_stops_readers:
  assumes "handle_frame X FRAME_TYPE_MESSAGE [] c = Inr c'" "conn_s c = []"
    and "p_msgs p = conn_s c'" "p_threads p ! i = CRecv h" "i < length (p_threads p)"
  shows "\<not> p_connected (run_thread X H i p) \<and> p_threads (run_thread X H i p) ! i = CClose h"
proof -
  have "p_msgs p = [BytesMsg (msg_timeout c) []]"
    using assms(1-3) by (auto simp: handle_frame_def codec_consts Let_def ch_send_def rbind_Inr_iff)
  with assms(4,5) show ?thesis
    by (simp add: run_thread_def thread_step_defs)
qed

theorem empty_frame_stops_readers_witness:
  "\<exists>c'. handle_frame demo_ext FRAME_TYPE_MESSAGE [] demo_conn = Inr c' \<and>
     \<not> p_connected (run_thread demo_ext example_handlers 0
       (demo_pool\<lparr>p_threads := [CRecv ()], p_msgs := conn_s c'\<rparr>))"
proof -
  have "\<exists>c'. handle_frame demo_ext FRAME_TYPE_MESSAGE [] demo_conn = Inr c'"
    by (simp add: handle_frame_def add_u32_def)
  then obtain c' where c': "handle_frame demo_ext FRAME_TYPE_MESSAGE [] demo_conn = Inr c'" by blast
  have "conn_s demo_conn = []" by (simp add: demo_conn_def conn_new_def)
  from empty_frame_stops_readers [OF c' this, of "demo_pool\<lparr>p_threads := [CRecv ()], p_msgs := conn_s c'\<rparr>"
      0 "()" example_handlers] c'
  show ?thesis by simp
qed

end
