(* ===== verification/Workers_Live.thy ===== *)
theory Workers_Live
  imports Workers_Props
begin

text \<open>
  Progress of the consumer threads: if handlers do not panic and messages can be decoded, then
  under every fair schedule all messages up to the first stop message are handled and
  \<open>on_close\<close> is called after it. A fair schedule is a sequence of rounds in each of which
  every thread runs at least once, in any order and any number of times; \<open>work\<close> is the
  measure every such round decreases while there is something to do.
\<close>

section \<open>The stop message in the queue\<close>

definition stop_inv :: "'h pool \<Rightarrow> bool" where
  "stop_inv p \<longleftrightarrow> close_inv p \<and>
     (if p_connected p then list_all content (p_taken p)
      else \<exists>ms m. p_taken p = ms @ [m] \<and> list_all content ms \<and> \<not> content m)"

lemma run_thread_stop:
  assumes "stop_inv p"
  shows "stop_inv (run_thread X H i p)"
proof (cases "length (p_threads p) \<le> i")
  case False
  have inv: "close_inv p" "close_inv (run_thread X H i p)"
    using assms by (simp_all add: stop_inv_def run_thread_close)
  then have at: "holding (p_threads p ! i) \<longleftrightarrow> p_holder p = Some i"
    using False by (simp add: close_inv_def lock_inv_at)
  show ?thesis
    unfolding stop_inv_def
  proof (intro conjI inv(2), cases "p_threads p ! i")
  qed (use False assms at in \<open>auto simp: run_thread_def thread_step_defs stop_inv_def close_inv_def
      holder_state_def split: option.splits bytes_msg.splits prod.splits sum.splits if_splits\<close>)
qed (simp add: run_thread_def assms)

lemma act_stop: "stop_inv p \<Longrightarrow> stop_inv (act X H a p)"
proof (cases a)
  case (Run i)
  then show "stop_inv p \<Longrightarrow> ?thesis" by (simp add: act_def run_thread_stop)
qed (use act_close [of p X H a] in \<open>auto simp: act_def stop_inv_def\<close>)

interpretation stopping: invariant_system fresh "pool_step X H" stop_inv for X H
proof
  show "stop_inv p" if "fresh p" for p :: "'a pool"
    using that fresh_close [OF that] by (simp add: stop_inv_def fresh_def)
qed (auto intro: act_stop elim!: pool_stepE)

section \<open>Pools in which messages are served\<close>

text \<open>Handlers that do not panic.\<close>

definition obedient :: "'h handlers \<Rightarrow> bool" where
  "obedient H \<longleftrightarrow> (\<forall>h m. snd (h_on_msg H h m) \<noteq> None) \<and> (\<forall>h. snd (h_on_close H h) \<noteq> None)"

lemma obedientD:
  assumes "obedient H"
  shows "h_on_msg H h m \<noteq> (cs, None)" "h_on_close H h \<noteq> (cs, None)"
  using assms unfolding obedient_def by (metis snd_conv)+

lemma examples_obedient: "obedient example_handlers"
  by (simp add: obedient_def example_handlers_def my_reader_on_msg_def default_on_close_def)

fun consumer :: "'h thread \<Rightarrow> bool" where
  "consumer (CLock h) = True"
| "consumer (CRecv h) = True"
| "consumer (CHandle h t b) = True"
| "consumer (CClose h) = True"
| "consumer _ = False"

fun producer :: "'h thread \<Rightarrow> bool" where
  "producer PLock = True"
| "producer PHold = True"
| "producer _ = False"

abbreviation decodable :: "ext \<Rightarrow> bytes_msg \<Rightarrow> bool" where
  "decodable X m \<equiv> content m \<longrightarrow> as_msg X m \<noteq> None"

definition serving :: "ext \<Rightarrow> 'h pool \<Rightarrow> bool" where
  "serving X p \<longleftrightarrow> stop_inv p \<and> \<not> p_poisoned p \<and> list_all (\<lambda>th. \<not> producer th) (p_threads p) \<and>
     (p_connected p \<longrightarrow> list_ex consumer (p_threads p)) \<and>
     list_all (decodable X) (p_msgs p) \<and> list_all (\<lambda>m. as_msg X m \<noteq> None) (in_hand p)"

lemma servingD:
  assumes "serving X p"
  shows "stop_inv p" "close_inv p"
proof -
  show "stop_inv p" using assms by (simp add: serving_def)
  then show "close_inv p" by (simp add: stop_inv_def)
qed

lemma list_all_update: "list_all P xs \<Longrightarrow> P x \<Longrightarrow> list_all P (xs[i := x])"
  by (auto simp: list_all_iff dest!: set_mp [OF set_update_subset_insert])

lemma list_ex_update:
  "i < length xs \<Longrightarrow> list_ex P xs \<Longrightarrow> (P (xs ! i) \<Longrightarrow> P x) \<Longrightarrow> list_ex P (xs[i := x])"
  by (metis length_list_update list_ex_length nth_list_update_eq nth_list_update_neq)

lemma run_thread_serving:
  assumes "obedient H" "serving X p"
  shows "serving X (run_thread X H i p)"
proof (cases "length (p_threads p) \<le> i")
  case False
  note inv = servingD(2) [OF assms(2)] run_thread_stop [OF servingD(1) [OF assms(2)], of X H i]
  then have at: "holding (p_threads p ! i) \<longleftrightarrow> p_holder p = Some i"
    using False by (simp add: close_inv_def lock_inv_at)
  have calm: "\<not> producer (p_threads p ! i)"
    using assms(2) False by (simp add: serving_def list_all_length)
  have closed: "\<not> p_connected p" if "p_threads p ! i = CClose h" for h
    using that inv(1) at by (auto simp: close_inv_def holder_state_def)
  show ?thesis
    unfolding serving_def
  proof (intro conjI inv(2), goal_cases)
    case 1
    show ?case
      by (cases "p_threads p ! i") (use False assms(2) at calm in \<open>auto simp: run_thread_def thread_step_defs
        serving_def obedientD [OF assms(1)] in_hand_def holder_state_def as_msg_def
        split: option.splits bytes_msg.splits prod.splits sum.splits if_splits\<close>)
  next
    case 2
    show ?case
      by (cases "p_threads p ! i") (use False assms(2) at calm in \<open>auto simp: run_thread_def thread_step_defs
        serving_def intro!: list_all_update
        split: option.splits bytes_msg.splits prod.splits sum.splits if_splits\<close>)
  next
    case 3
    show ?case
      by (cases "p_threads p ! i") (use False assms(2) at calm closed in \<open>auto simp: run_thread_def thread_step_defs
        serving_def obedientD [OF assms(1)] in_hand_def holder_state_def as_msg_def intro!: list_ex_update
        split: option.splits bytes_msg.splits prod.splits sum.splits if_splits\<close>)
  next
    case 4
    show ?case
      by (cases "p_threads p ! i"; cases "p_msgs p") (use False assms(2) at calm in \<open>auto simp: run_thread_def thread_step_defs
        serving_def split: option.splits bytes_msg.splits prod.splits sum.splits if_splits\<close>)
  next
    case 5
    show ?case
      by (cases "p_threads p ! i"; cases "p_msgs p") (use False assms(2) at calm in \<open>auto simp: run_thread_def thread_step_defs
        serving_def in_hand_def holder_state_def as_msg_def nth_list_update
        split: option.splits bytes_msg.splits prod.splits sum.splits if_splits thread.splits\<close>)
  qed
qed (simp add: run_thread_def assms)

lemma act_serving:
  assumes "obedient H" "serving X p" "\<And>m. a = Deliver m \<Longrightarrow> decodable X m"
  shows "serving X (act X H a p)"
proof (cases a)
  case (Run i)
  then show ?thesis using run_thread_serving [OF assms(1,2)] by (simp add: act_def)
qed (use assms(2,3) act_stop [of p X H a] in
    \<open>auto simp: act_def serving_def ch_send_def in_hand_def\<close>)

section \<open>What is left to do\<close>

definition busy :: "'h pool \<Rightarrow> bool" where
  "busy p \<longleftrightarrow> (\<exists>h. holder_state p = CClose h) \<or> in_hand p \<noteq> [] \<or> p_connected p \<and> p_msgs p \<noteq> []"

definition work :: "'h pool \<Rightarrow> nat" where
  "work p = 3 * length (p_msgs p) +
     (case holder_state p of CRecv h \<Rightarrow> 0 | CHandle h t b \<Rightarrow> 2 | CClose h \<Rightarrow> 2 | _ \<Rightarrow> 1)"

text \<open>Thread \<open>i\<close> can do the next piece of work.\<close>

definition ready :: "nat \<Rightarrow> 'h pool \<Rightarrow> bool" where
  "ready i p \<longleftrightarrow> i < length (p_threads p) \<and>
     (case p_holder p of None \<Rightarrow> \<exists>h. p_threads p ! i = CLock h | Some j \<Rightarrow> i = j)"

lemma busy_ready:
  assumes "serving X p" "busy p"
  shows "\<exists>i. ready i p"
proof (cases "p_holder p")
  case None
  then have "p_connected p" using assms(2) by (auto simp: busy_def holder_state_def)
  with assms(1) obtain i where i: "i < length (p_threads p)" "consumer (p_threads p ! i)"
    by (auto simp: serving_def list_ex_length)
  moreover have "\<not> holding (p_threads p ! i)"
    using assms(1) None i(1) by (simp add: serving_def stop_inv_def close_inv_def lock_inv_at)
  ultimately show ?thesis
    using None by (cases "p_threads p ! i") (auto simp: ready_def)
next
  case (Some j)
  then show ?thesis
    using assms(1) by (auto simp: ready_def serving_def stop_inv_def close_inv_def lock_inv_def)
qed

text \<open>
  A step of a thread never adds work; if it does not remove any, it leaves a ready thread ready,
  and it is not the ready thread's own.
\<close>

lemma run_thread_work:
  assumes "obedient H" "serving X p"
  shows "work (run_thread X H j p) \<le> work p \<and> (busy (run_thread X H j p) \<longrightarrow> busy p) \<and>
    (busy p \<longrightarrow> work (run_thread X H j p) < work p \<or>
       busy (run_thread X H j p) \<and> (\<forall>i. ready i p \<longrightarrow> i \<noteq> j \<and> ready i (run_thread X H j p)))"
proof (cases "length (p_threads p) \<le> j")
  case False
  have inv: "close_inv p" using assms(2) by (rule servingD)
  then have at: "holding (p_threads p ! j) \<longleftrightarrow> p_holder p = Some j"
    using False by (simp add: close_inv_def lock_inv_at)
  have calm: "\<not> producer (p_threads p ! j)" "\<not> p_poisoned p"
    using assms(2) False by (simp_all add: serving_def list_all_length)
  show ?thesis
    by (cases "p_threads p ! j"; cases "p_msgs p") (use False assms(2) inv at calm in
      \<open>auto simp: run_thread_def thread_step_defs work_def busy_def ready_def in_hand_def
        holder_state_def close_inv_def nth_list_update
        split: option.splits bytes_msg.splits prod.splits sum.splits if_splits thread.splits\<close>)
next
  case True
  then show ?thesis by (auto simp: run_thread_def ready_def)
qed

section \<open>Fair rounds\<close>

text \<open>
  A round in which every one of \<open>n\<close> threads runs; the loop may take commands and the user may
  send some meanwhile, but no message arrives.
\<close>

definition fair_round :: "nat \<Rightarrow> action list \<Rightarrow> bool" where
  "fair_round n as \<longleftrightarrow> delivered_in as = [] \<and> list_all (\<lambda>i. Run i \<in> set as) [0..<n]"

lemma act_work:
  assumes "obedient H" "serving X p" "\<And>m. a \<noteq> Deliver m"
  shows "serving X (act X H a p) \<and> work (act X H a p) \<le> work p \<and>
    (busy (act X H a p) \<longrightarrow> busy p) \<and>
    (busy p \<longrightarrow> work (act X H a p) < work p \<or>
       busy (act X H a p) \<and> (\<forall>i. ready i p \<longrightarrow> a \<noteq> Run i \<and> ready i (act X H a p)))"
proof (cases a)
  case (Run i)
  then show ?thesis
    using run_thread_work [OF assms(1,2), of i] run_thread_serving [OF assms(1,2), of i]
    by (auto simp: act_def)
qed (use assms act_serving [OF assms(1,2), of a] in
    \<open>auto simp: act_def work_def busy_def ready_def in_hand_def cong: option.case_cong\<close>)

lemma schedule_Cons [simp]: "schedule X H (a # as) p = schedule X H as (act X H a p)"
  by (simp add: schedule_def)

lemma schedule_append: "schedule X H (as @ bs) p = schedule X H bs (schedule X H as p)"
  by (simp add: schedule_def)

lemma schedule_work:
  assumes "obedient H"
  shows "serving X p \<Longrightarrow> delivered_in as = [] \<Longrightarrow>
    serving X (schedule X H as p) \<and> work (schedule X H as p) \<le> work p \<and>
    (busy (schedule X H as p) \<longrightarrow> busy p) \<and>
    (ready i p \<longrightarrow> Run i \<in> set as \<longrightarrow> busy (schedule X H as p) \<longrightarrow>
       work (schedule X H as p) < work p)"
proof (induction as arbitrary: p)
  case Nil
  then show ?case by (simp add: schedule_def)
next
  case (Cons a as)
  let ?q = "act X H a p"
  from Cons.prems have a: "\<And>m. a \<noteq> Deliver m" "delivered_in as = []"
    by (auto simp: delivered_in_def)
  note one = act_work [OF assms Cons.prems(1) a(1)]
  with Cons.IH [of ?q] a(2) show ?case by fastforce
qed

lemma threads_kept: "length (p_threads (schedule X H as p)) = length (p_threads p)"
proof (induction as arbitrary: p)
  case (Cons a as)
  from Cons.IH [of "act X H a p"] show ?case by (cases a) (simp_all add: act_def)
qed (simp add: schedule_def)

lemma round_work:
  assumes "obedient H" "serving X p" "fair_round (length (p_threads p)) as"
  shows "serving X (schedule X H as p) \<and>
    (busy (schedule X H as p) \<longrightarrow> work (schedule X H as p) < work p)"
proof -
  have quiet: "delivered_in as = []" using assms(3) by (simp add: fair_round_def)
  note steps = schedule_work [OF assms(1,2) quiet]
  show ?thesis
  proof (cases "busy p")
    case True
    then obtain i where i: "ready i p" using busy_ready assms(2) by blast
    then have "Run i \<in> set as"
      using assms(3) by (auto simp: fair_round_def ready_def list_all_iff)
    with i steps show ?thesis by blast
  qed (use steps in blast)
qed

lemma rounds_work:
  assumes "obedient H"
  shows "serving X p \<Longrightarrow> list_all (fair_round (length (p_threads p))) rs \<Longrightarrow>
    serving X (schedule X H (concat rs) p) \<and>
    (busy (schedule X H (concat rs) p) \<longrightarrow>
       work (schedule X H (concat rs) p) + length rs \<le> work p)"
proof (induction rs arbitrary: p)
  case Nil
  then show ?case by (simp add: schedule_def)
next
  case (Cons r rs)
  let ?q = "schedule X H r p"
  from Cons.prems have q: "serving X ?q" "busy ?q \<Longrightarrow> work ?q < work p"
    using round_work [OF assms Cons.prems(1), of r] by simp_all
  have quiet: "delivered_in (concat rs) = []"
    using Cons.prems(2)
    by (induction rs) (auto simp: fair_round_def delivered_in_def)
  have "busy ?q" if "busy (schedule X H (concat rs) ?q)"
    using that schedule_work [OF assms q(1) quiet] by blast
  with Cons.IH [of ?q] Cons.prems q show ?case
    by (force simp: schedule_append threads_kept)
qed

lemma schedule_serving:
  assumes "obedient H"
  shows "serving X p \<Longrightarrow> list_all (decodable X) (delivered_in as) \<Longrightarrow>
    serving X (schedule X H as p)"
proof (induction as arbitrary: p)
  case (Cons a as)
  then have "serving X (act X H a p)"
    by (intro act_serving assms) (auto simp: delivered_in_def)
  with Cons show ?case by (auto simp: delivered_in_def)
qed (simp add: schedule_def)

lemma work_bound: "work p \<le> 3 * length (p_msgs p) + 2"
  by (simp add: work_def split: thread.split)

text \<open>When nothing is left to do, everything up to the first stop has been handled.\<close>

lemma served_all:
  assumes "serving X q" "queue_inv X q" "\<not> busy q" "p_taken q @ p_msgs q = ms"
  shows "map Some (p_handled q) = map (as_msg X) (takeWhile content ms) \<and>
    p_closed q = (if list_all content ms then 0 else 1)"
proof -
  note stop = servingD [OF assms(1)]
  have "lost = []" if "length lost \<le> (if p_poisoned q then 1 else 0)" for lost :: "msg option list"
    using that assms(1) by (simp add: serving_def)
  moreover have "in_hand q = []" using assms(3) by (simp add: busy_def)
  ultimately have handled: "map Some (p_handled q) = map (as_msg X) (contents (p_taken q))"
    using assms(2) by (auto simp: queue_inv_def)
  show ?thesis
  proof (cases "p_connected q")
    case True
    with assms(3) have "p_msgs q = []" by (simp add: busy_def)
    then have ms: "ms = p_taken q" using assms(4) by simp
    with True stop have all: "list_all content ms" "p_closed q = 0"
      by (simp_all add: stop_inv_def close_inv_def)
    then have "takeWhile content ms = ms" "contents ms = ms"
      unfolding takeWhile_eq_all_conv by (simp_all add: list_all_iff contents_def)
    with all handled show ?thesis by (simp only: ms) simp
  next
    case False
    with stop(1) obtain pre m where t: "p_taken q = pre @ [m]" "list_all content pre" "\<not> content m"
      by (auto simp: stop_inv_def)
    have "\<not> list_all content ms" using t assms(4) by (auto simp flip: assms(4))
    moreover have "takeWhile content ms = pre" "contents (p_taken q) = pre"
      using t by (auto simp: list_all_iff contents_def takeWhile_append2 simp flip: assms(4))
    moreover have "p_closed q = 1"
      using stop(2) False assms(3)
      by (auto simp: close_inv_def busy_def in_hand_def split: thread.splits)
    ultimately show ?thesis using handled by simp
  qed
qed

section \<open>Readers that have ended\<close>

definition ended :: "msg list \<Rightarrow> 'h pool \<Rightarrow> bool" where
  "ended ds p \<longleftrightarrow> close_inv p \<and> \<not> p_connected p \<and> p_closed p = 1 \<and> p_handled p = ds"

lemma run_thread_closed: "p_closed p \<le> p_closed (run_thread X H i p)"
  by (cases "length (p_threads p) \<le> i"; cases "p_threads p ! i")
    (auto simp: run_thread_def thread_step_defs split: option.splits bytes_msg.splits prod.splits sum.splits)

lemma act_ended:
  assumes "ended ds p"
  shows "ended ds (act X H a p)"
proof -
  have p: "close_inv p" "\<not> p_connected p" "p_closed p = 1" "p_handled p = ds"
    using assms by (simp_all add: ended_def)
  have inv: "close_inv (act X H a p)" by (rule act_close [OF p(1)])
  have stays: "\<not> p_connected (act X H a p)" "p_handled (act X H a p) = ds"
    using stopped_stays [OF p(1,2)] p(4) by blast+
  have "1 \<le> p_closed (act X H a p)"
    using run_thread_closed [of p X H] p(3) by (cases a) (simp_all add: act_def)
  with inv stays(1) have "p_closed (act X H a p) = 1"
    by (auto simp: close_inv_def split: thread.splits)
  with inv stays show ?thesis by (simp add: ended_def)
qed

section \<open>The property\<close>

text \<open>
  C17: every message is handled in the end. If there is a consumer and no producer, no handler
  panics and every delivered message can be decoded, then, whatever has happened so far, three
  fair rounds per delivered message and three more are enough: the handlers have been given all
  messages up to the first stop message, in order, and \<open>on_close\<close> has been called once if there
  was a stop message and not at all otherwise.
\<close>

theorem delivered_messages_get_handled:
  assumes "fresh p" "list_ex consumer (p_threads p)" "list_all (\<lambda>th. \<not> producer th) (p_threads p)"
    and "obedient H" "list_all (decodable X) (delivered_in as)"
    and "list_all (fair_round (length (p_threads p))) rs"
    and "3 * length (delivered_in as) + 3 \<le> length rs"
    and "q = schedule X H (as @ concat rs) p"
  shows "map Some (p_handled q) = map (as_msg X) (takeWhile content (delivered_in as)) \<and>
    p_closed q = (if list_all content (delivered_in as) then 0 else 1)"
proof (rule served_all)
  let ?p = "schedule X H as p"
  have p: "serving X p"
    using assms(1-3) fresh_close [OF assms(1)]
    by (simp add: serving_def stop_inv_def) (simp add: fresh_def)
  then have sp: "serving X ?p" using assms(4,5) by (intro schedule_serving)
  have q: "q = schedule X H (concat rs) ?p" by (simp add: assms(8) schedule_append)
  have rounds: "serving X q" "busy q \<Longrightarrow> work q + length rs \<le> work ?p"
    using rounds_work [OF assms(4) sp, of rs] assms(6) by (simp_all add: q threads_kept)
  have taken: "p_taken ?p @ p_msgs ?p = delivered_in as"
    using schedule_taken [of X H as p] assms(1) by (simp add: fresh_def)
  have quiet: "delivered_in (concat rs) = []"
    using assms(6) by (induction rs) (auto simp: fair_round_def delivered_in_def)
  show "serving X q" by (rule rounds(1))
  show "queue_inv X q" unfolding assms(8) by (rule schedule_reaches(3) [OF assms(1)])
  show "p_taken q @ p_msgs q = delivered_in as"
    using schedule_taken [of X H "concat rs" ?p] taken quiet by (simp add: q)
  have "length (p_msgs ?p) \<le> length (delivered_in as)" by (simp flip: taken)
  then show "\<not> busy q" using rounds(2) work_bound [of ?p] assms(7) by fastforce
qed

text \<open>Two consumers and the wakers; two messages, a stop and a message behind it.\<close>

theorem delivered_messages_get_handled_witness:
  "let a = ''aaaaaaaaaaaaaaaa''; b = ''bbbbbbbbbbbbbbbb'';
       ms = [BytesMsg 9 (demo_bytes a), BytesMsg 9 (demo_bytes b), BytesMsg 0 [], BytesMsg 9 (demo_bytes a)];
       q = demo_act (map Deliver ms @ concat (replicate 15 [Run 3, Run 1, Run 2, Run 0])) in
   map msg_id (p_handled q) = [a, b] \<and> p_closed q = 1"
proof -
  let ?a = "''aaaaaaaaaaaaaaaa''" and ?b = "''bbbbbbbbbbbbbbbb''"
  let ?ms = "[BytesMsg 9 (demo_bytes ?a), BytesMsg 9 (demo_bytes ?b), BytesMsg 0 [],
    BytesMsg 9 (demo_bytes ?a)]"
  let ?r = "[Run 3, Run 1, Run 2, Run 0]"
  let ?q = "demo_act (map Deliver ?ms @ concat (replicate 15 ?r))"
  have id: "valid_str ?a" "valid_str ?b" by (simp_all add: valid_str_def utf8_ranges_def)
  have pool: "length (p_threads demo_pool) = 4" "list_ex consumer (p_threads demo_pool)"
      "list_all (\<lambda>th. \<not> producer th) (p_threads demo_pool)"
    by (simp_all add: demo_pool_def spawn_def spawn_wakers_def pool_new_def numeral_2_eq_2)
  have r: "fair_round 4 ?r" by (simp add: fair_round_def delivered_in_def upt_rec)
  have ms: "delivered_in (map Deliver ?ms) = ?ms" by (simp add: delivered_in_def)
  have dec: "list_all (decodable demo_ext) ?ms"
    by (simp add: as_msg_def demo_decode id)
  have "map Some (p_handled ?q) = map (as_msg demo_ext) (takeWhile content ?ms) \<and>
      p_closed ?q = (if list_all content ?ms then 0 else 1)"
    using delivered_messages_get_handled [OF demo_pool_fresh pool(2,3) examples_obedient, of demo_ext "map Deliver ?ms"
        "replicate 15 ?r" ?q]
    unfolding ms using dec r pool(1) by (simp add: demo_act_def list_all_length)
  then have h: "map Some (p_handled ?q) = map (as_msg demo_ext) (take 2 ?ms)" "p_closed ?q = 1"
    by simp_all
  have "map Some (map msg_id (p_handled ?q)) = map (map_option msg_id) (map Some (p_handled ?q))"
    by simp
  also have "\<dots> = map Some [?a, ?b]" unfolding h by (simp add: as_msg_def demo_decode id)
  finally have "map msg_id (p_handled ?q) = [?a, ?b]" by (simp only: inj_map_eq_map [OF inj_Some])
  with h(2) show ?thesis by (simp only: Let_def)
qed

end
