(* ===== verification/System.thy ===== *)
theory System
  imports Client_Traffic Workers_Live
begin

text \<open>
  The whole client: the event loop and the threads, joined by the channels they share. A state
  is a state of the loop, a pool and whether \<open>run\<close> has returned; what can happen next is a step
  of one thread, a request of the user or the end of its requests, an event of the loop, the heartbeat timer or the switch
  to TLS, in any order. An event takes the commands and close requests that wait in the pool
  and hands the messages it sends to the readers over to the pool.
\<close>

section \<open>States and steps\<close>

record 'h system =
  y_run :: run
  y_pool :: "'h pool"
  y_over :: bool

datatype happening = Thread nat | Ask conn_msg | Leave | Event event | Tick nat | EnterTls

text \<open>The messages sent to the readers between two states of the loop.\<close>

definition sent_between :: "run \<Rightarrow> run \<Rightarrow> bytes_msg list" where
  "sent_between st st' = drop (length (conn_s (r_conn st))) (conn_s (r_conn st'))"

definition hand_over :: "run \<Rightarrow> run \<Rightarrow> 'h pool \<Rightarrow> 'h pool" where
  "hand_over st st' p = p\<lparr>p_msgs := p_msgs p @ sent_between st st'\<rparr>"

definition system_event :: "ext \<Rightarrow> event \<Rightarrow> 'h system \<Rightarrow> 'h system option" where
  "system_event X ev s =
     (let p = y_pool s; st = y_run s;
          f = loop_event X (ev\<lparr>ev_cmds := p_cmds p, ev_close := p_close p\<rparr>) st in
      map_option
        (\<lambda>st'. s\<lparr>y_run := st', y_pool := hand_over st st' (p\<lparr>p_cmds := [], p_close := []\<rparr>),
                y_over := (case f of Done _ \<Rightarrow> True | _ \<Rightarrow> False)\<rparr>)
        (flow_run f))"

definition system_tick :: "nat \<Rightarrow> 'h system \<Rightarrow> 'h system" where
  "system_tick now s =
     s\<lparr>y_run := check_heartbeat now (y_run s),
       y_pool := hand_over (y_run s) (check_heartbeat now (y_run s)) (y_pool s)\<rparr>"

text \<open>\<open>None\<close>: the step is not possible, or the thread of the loop panics or the process exits.\<close>

definition happen :: "ext \<Rightarrow> 'h handlers \<Rightarrow> happening \<Rightarrow> 'h system \<Rightarrow> 'h system option" where
  "happen X H a s =
     (case a of
        Thread i \<Rightarrow> Some (s\<lparr>y_pool := act X H (Run i) (y_pool s)\<rparr>)
      | Ask m \<Rightarrow> Some (s\<lparr>y_pool := act X H (UserCmd m) (y_pool s)\<rparr>)
      | Leave \<Rightarrow> Some (s\<lparr>y_pool := act X H HangUp (y_pool s)\<rparr>)
      | Event ev \<Rightarrow> if y_over s then None else system_event X ev s
      | Tick now \<Rightarrow> if y_over s \<or> r_tls (y_run s) = 1 then None else Some (system_tick now s)
      | EnterTls \<Rightarrow>
          if y_over s \<or> r_tls (y_run s) \<noteq> 1 then None
          else Some (s\<lparr>y_run := (y_run s)\<lparr>r_interest := Readable\<rparr>\<rparr>))"

primrec history :: "ext \<Rightarrow> 'h handlers \<Rightarrow> happening list \<Rightarrow> 'h system \<Rightarrow> 'h system option" where
  "history X H [] s = Some s"
| "history X H (a # as) s = Option.bind (happen X H a s) (history X H as)"

inductive system_step :: "ext \<Rightarrow> 'h handlers \<Rightarrow> 'h system \<Rightarrow> 'h system \<Rightarrow> bool" for X H where
  "happen X H a s = Some s' \<Longrightarrow> system_step X H s s'"

inductive_cases system_stepE: "system_step X H s s'"

lemma history_steps: "history X H as s = Some s' \<Longrightarrow> (system_step X H)\<^sup>*\<^sup>* s s'"
  by (induction as arbitrary: s)
    (auto simp: bind_eq_Some_conv intro: converse_rtranclp_into_rtranclp system_step.intros)

lemma history_append:
  "history X H (as @ bs) s = Option.bind (history X H as s) (history X H bs)"
  by (induction as arbitrary: s) (simp_all add: bind_eq_Some_conv split: bind_split)

text \<open>The client when \<open>run\<close> starts to poll: magic is in the buffer, the pool is fresh.\<close>

definition system_start ::
  "ext \<Rightarrow> client \<Rightarrow> world \<Rightarrow> nat \<Rightarrow> 'h pool \<Rightarrow> panic + 'h system"
where
  "system_start X cl W addr p =
     rbind (magic X (conn_new X (cl_config cl) (cl_cmd_channel cl) (cl_msg_channel cl) []
         (cl_msg_timeout cl))) (\<lambda>c.
     Inr \<lparr>y_run = run_start cl W c addr, y_pool = p, y_over = False\<rparr>)"

section \<open>What the pool keeps when the loop hands messages over\<close>

lemma channels_keep [simp]:
  "lock_inv (p\<lparr>p_msgs := ms, p_cmds := cs, p_close := ks\<rparr>) = lock_inv p"
  "holder_state (p\<lparr>p_msgs := ms, p_cmds := cs, p_close := ks\<rparr>) = holder_state p"
  "in_hand (p\<lparr>p_msgs := ms, p_cmds := cs, p_close := ks\<rparr>) = in_hand p"
  by (simp_all add: lock_inv_def in_hand_def holder_state_def cong: option.case_cong)

lemma channels_inv [simp]:
  "close_inv (p\<lparr>p_msgs := ms, p_cmds := cs, p_close := ks\<rparr>) = close_inv p"
  "queue_inv X (p\<lparr>p_msgs := ms, p_cmds := cs, p_close := ks\<rparr>) = queue_inv X p"
  by (simp_all add: close_inv_def queue_inv_def cong: thread.case_cong)

lemma run_thread_cmds:
  "\<exists>new. p_sent (run_thread X H i p) = p_sent p @ new \<and> p_cmds (run_thread X H i p) = p_cmds p @ new"
proof (cases "length (p_threads p) \<le> i")
  case False
  have c: "p_cmds (context_send a q) = p_cmds q @ [as_cmd a]" for a and q :: "'a pool"
    by (simp add: context_send_def ch_send_def)
  show ?thesis
    by (cases "p_threads p ! i") (use False in \<open>auto simp: run_thread_def thread_step_defs c
      split: option.splits bytes_msg.splits prod.splits sum.splits\<close>)
qed (simp add: run_thread_def)

section \<open>What flows through the system\<close>

text \<open>Handlers that only send commands whose sizes fit the length fields of the protocol.\<close>

definition fitting_handlers :: "'h handlers \<Rightarrow> bool" where
  "fitting_handlers H \<longleftrightarrow>
     (\<forall>h m. list_all cmd_ok (fst (h_on_msg H h m))) \<and>
     (\<forall>h. list_all cmd_ok (fst (h_on_close H h))) \<and>
     (\<forall>n c. h_publish H n = Some c \<longrightarrow> cmd_ok (RawCmd c))"

abbreviation fitting :: "cmd list \<Rightarrow> bool" where
  "fitting ms \<equiv> list_all (\<lambda>m. cmd_ok (RawCmd m)) ms"

lemma run_thread_fitting:
  assumes "fitting_handlers H" "fitting (p_sent p)"
  shows "fitting (p_sent (run_thread X H i p))"
proof (cases "length (p_threads p) \<le> i")
  case False
  have "fitting (map as_cmd cs) = list_all cmd_ok cs" for cs by (induction cs) simp_all
  moreover have on: "h_on_msg H h m = (cs, r) \<Longrightarrow> list_all cmd_ok cs"
      "h_on_close H h = (cs, r) \<Longrightarrow> list_all cmd_ok cs" "h_publish H n = Some c \<Longrightarrow> cmd_ok (RawCmd c)"
    for h m cs r n c
    using assms(1) unfolding fitting_handlers_def by (metis fst_conv)+
  ultimately show ?thesis
    using False assms(2) by (cases "p_threads p ! i") (auto simp: run_thread_def thread_step_defs
      split: option.splits bytes_msg.splits prod.splits sum.splits dest!: on)
qed (simp add: run_thread_def assms)

lemma happen_eventE:
  assumes "happen X H (Event ev) s = Some s'"
  obtains ev' st' ov where "flow_run (loop_event X ev' (y_run s)) = Some st'"
    "ev_cmds ev' = p_cmds (y_pool s)"
    "s' = s\<lparr>y_run := st', y_over := ov, y_pool := (y_pool s)\<lparr>p_msgs := p_msgs (y_pool s) @
      sent_between (y_run s) st', p_cmds := [], p_close := []\<rparr>\<rparr>"
proof -
  let ?ev = "ev\<lparr>ev_cmds := p_cmds (y_pool s), ev_close := p_close (y_pool s)\<rparr>"
  from assms obtain st' where "flow_run (loop_event X ?ev (y_run s)) = Some st'"
    "s' = s\<lparr>y_run := st', y_over := (case loop_event X ?ev (y_run s) of Done _ \<Rightarrow> True | _ \<Rightarrow> False),
      y_pool := (y_pool s)\<lparr>p_msgs := p_msgs (y_pool s) @ sent_between (y_run s) st',
        p_cmds := [], p_close := []\<rparr>\<rparr>"
    by (auto simp: happen_def system_event_def Let_def hand_over_def split: if_splits)
  then show ?thesis by (intro that [of ?ev]) simp_all
qed

lemma history_inv:
  assumes "\<And>a s s'. I s \<Longrightarrow> happen X H a s = Some s' \<Longrightarrow> I s'"
  shows "I s \<Longrightarrow> history X H as s = Some s' \<Longrightarrow> I s'"
  by (induction as arbitrary: s) (auto simp: bind_eq_Some_conv intro: assms)

subsection \<open>What has come in\<close>

text \<open>
  \<open>D\<close> is what the server sends in all. The messages of the frames taken so far have been handed
  to the readers, and are taken or waiting.
\<close>

definition received :: "ext \<Rightarrow> bytes \<Rightarrow> 'h system \<Rightarrow> bool" where
  "received X D s \<longleftrightarrow>
     (let c = r_conn (y_run s); p = y_pool s in
      queue_inv X p \<and> conn_s c = p_taken p @ p_msgs p \<and>
      (\<exists>fs. D = concat (map enc_frame fs) @ r_buf c @ stream_bytes (r_sock (y_run s)) \<and>
         map msg_bytes (contents (conn_s c)) = with_content (payloads fs)))"

lemma received_loop:
  assumes "received X D s" "inbound fs st st'"
    and "r_buf (r_conn st) = r_buf (r_conn (y_run s))" "r_sock st = r_sock (y_run s)"
      "conn_s (r_conn st) = conn_s (r_conn (y_run s))"
  shows "received X D (s\<lparr>y_run := st', y_over := ov, y_pool := (y_pool s)\<lparr>p_msgs :=
    p_msgs (y_pool s) @ sent_between (y_run s) st', p_cmds := cs, p_close := ks\<rparr>\<rparr>)"
proof -
  let ?st = "y_run s" and ?p = "y_pool s"
  from assms(1) obtain fs0 where f:
    "D = concat (map enc_frame fs0) @ r_buf (r_conn ?st) @ stream_bytes (r_sock ?st)"
    "map msg_bytes (contents (conn_s (r_conn ?st))) = with_content (payloads fs0)"
    "queue_inv X ?p" "conn_s (r_conn ?st) = p_taken ?p @ p_msgs ?p"
    by (auto simp: received_def Let_def)
  from assms(2) obtain ms where i:
    "r_buf (r_conn ?st) @ stream_bytes (r_sock ?st) =
      concat (map enc_frame fs) @ r_buf (r_conn st') @ stream_bytes (r_sock st')"
    "conn_s (r_conn st') = conn_s (r_conn ?st) @ ms" "sent_between ?st st' = ms"
    "map msg_bytes (contents ms) = with_content (payloads fs)"
    by (auto simp: inbound_def sent_between_def assms(3-5))
  have "\<exists>fs. D = concat (map enc_frame fs) @ r_buf (r_conn st') @ stream_bytes (r_sock st') \<and>
      map msg_bytes (contents (conn_s (r_conn st'))) = with_content (payloads fs)"
    using f(1,2) i by (intro exI [of _ "fs0 @ fs"]) (simp add: payloads_def)
  then show ?thesis using f(3,4) i(2,3) by (simp add: received_def Let_def)
qed

lemma happen_received:
  assumes "split_law X" "length D < 2 ^ 63" "received X D s" "happen X H a s = Some s'"
  shows "received X D s'"
proof (cases a)
  case (Thread i)
  have "queue_inv X (run_thread X H i (y_pool s))"
    using assms(3) unfolding received_def Let_def by (blast intro: run_thread_queue)
  with assms(3,4) run_thread_taken [of X H i "y_pool s"] show ?thesis
    by (auto simp: Thread happen_def act_def received_def Let_def)
next
  case (Ask m)
  with assms(3,4) act_queue [of X "y_pool s" H "UserCmd m"] show ?thesis
    by (auto simp: happen_def act_def received_def Let_def)
next
  case Leave
  with assms(3,4) act_queue [of X "y_pool s" H HangUp] show ?thesis
    by (auto simp: happen_def act_def received_def Let_def)
next
  case (Event ev)
  with assms(4) have "happen X H (Event ev) s = Some s'" by simp
  then show ?thesis
  proof (rule happen_eventE)
    fix ev' st' ov assume e: "flow_run (loop_event X ev' (y_run s)) = Some st'"
      and s': "s' = s\<lparr>y_run := st', y_over := ov, y_pool := (y_pool s)\<lparr>p_msgs := p_msgs (y_pool s) @
        sent_between (y_run s) st', p_cmds := [], p_close := []\<rparr>\<rparr>"
    have "small_input (y_run s)"
      using assms(2,3) by (auto simp: received_def Let_def small_input_def)
    from loop_event_inbound [OF e assms(1) this] obtain fs where "inbound fs (arrive ev' (y_run s)) st'"
      by blast
    then show ?thesis
      unfolding s' by (rule received_loop [OF assms(3)]) (simp_all add: arrive_def)
  qed
next
  case (Tick now)
  have "received X D (s\<lparr>y_run := check_heartbeat now (y_run s), y_over := y_over s,
    y_pool := (y_pool s)\<lparr>p_msgs := p_msgs (y_pool s) @ sent_between (y_run s) (check_heartbeat now (y_run s)),
      p_cmds := p_cmds (y_pool s), p_close := p_close (y_pool s)\<rparr>\<rparr>)"
    by (rule received_loop [OF assms(3) check_heartbeat_traffic(1)]) simp_all
  with assms(4) show ?thesis
    by (auto simp: Tick happen_def system_tick_def hand_over_def split: if_splits)
next
  case EnterTls
  with assms(3,4) show ?thesis by (auto simp: happen_def received_def Let_def split: if_splits)
qed

lemma history_received:
  assumes "split_law X" "length D < 2 ^ 63" "received X D s" "history X H as s = Some s'"
  shows "received X D s'"
  using happen_received [OF assms(1,2)] assms(3,4) by (rule history_inv)

text \<open>A client whose channels are empty when its stream starts.\<close>

definition fresh_start ::
  "ext \<Rightarrow> client \<Rightarrow> world \<Rightarrow> nat \<Rightarrow> 'h pool \<Rightarrow> 'h system \<Rightarrow> bool"
where
  "fresh_start X cl W addr p s \<longleftrightarrow>
     system_start X cl W addr p = Inr s \<and> fresh p \<and> p_cmds p = [] \<and> cl_cmd_channel cl = [] \<and>
     cl_msg_channel cl = [] \<and> length (stream_bytes (w_stream W addr)) < 2 ^ 63"

lemma fresh_startE:
  assumes "fresh_start X cl W addr p s"
  obtains b where "bm_data b = as_bytes VERSION"
    "s = \<lparr>y_run = run_start cl W ((conn_new X (cl_config cl) [] [] [] (cl_msg_timeout cl))
          \<lparr>w_buf := b, conn_state := SIdentify\<rparr>) addr, y_pool = p, y_over = False\<rparr>"
proof -
  obtain b where b: "write_magic X VERSION (bm_new X) = Inr b"
      "s = \<lparr>y_run = run_start cl W ((conn_new X (cl_config cl) [] [] [] (cl_msg_timeout cl))
          \<lparr>w_buf := b, conn_state := SIdentify\<rparr>) addr, y_pool = p, y_over = False\<rparr>"
    using assms by (auto simp: fresh_start_def system_start_def magic_def) (simp add: conn_new_def)
  then have "bm_data b = as_bytes VERSION"
    by (auto simp: write_magic_def dest!: buffer_data)
  from this b(2) show ?thesis by (rule that)
qed

lemma start_received:
  assumes "fresh_start X cl W addr p s"
  shows "received X (stream_bytes (w_stream W addr)) s"
proof (rule fresh_startE [OF assms])
  have "fresh p" using assms by (simp add: fresh_start_def)
  then show ?thesis if "s = \<lparr>y_run = run_start cl W ((conn_new X (cl_config cl) [] [] [] (cl_msg_timeout cl))
          \<lparr>w_buf := b, conn_state := SIdentify\<rparr>) addr, y_pool = p, y_over = False\<rparr>" for b
    using fresh_queue [of p X]
    by (auto simp: that received_def run_start_def conn_new_def fresh_def payloads_def contents_def
        intro!: exI [of _ "[] :: frame list"])
qed

lemma always_received:
  assumes "split_law X" "fresh_start X cl W addr p s" "history X H as s = Some s'"
  shows "received X (stream_bytes (w_stream W addr)) s'"
  using assms start_received [OF assms(2)] by (auto simp: fresh_start_def intro: history_received)

subsection \<open>What has gone out\<close>

text \<open>
  What has been put into the buffer is the magic, requests of the client's own and the commands
  that have been sent through contexts, except those still waiting. \<open>acc\<close>: the socket takes
  everything it is given.
\<close>

definition written :: "ext \<Rightarrow> config \<Rightarrow> client \<Rightarrow> bool \<Rightarrow> 'h system \<Rightarrow> bool" where
  "written X cfg cl acc s \<longleftrightarrow>
     (let st = y_run s; c = r_conn st; q = y_pool s in
      (\<exists>bs p its. s_out (r_sock st) = sent_bytes bs \<and> bm_data (w_buf c) = items_bytes p \<and>
         batch_items bs @ p = Magic # its \<and> list_all (own_item X cfg cl) its \<and>
         p_sent q = commands_of its @ conn_r c @ p_cmds q \<and> (acc \<longrightarrow> list_all batch_whole bs) \<and>
         commands_of p = []) \<and>
      (acc \<longrightarrow> s_wr (r_sock st) = []) \<and> conn_config c = cfg \<and> r_client st = cl \<and> fitting (p_sent q))"

lemma writtenE:
  assumes "written X cfg cl acc s"
  obtains bs p its where "s_out (r_sock (y_run s)) = sent_bytes bs"
    "bm_data (w_buf (r_conn (y_run s))) = items_bytes p" "batch_items bs @ p = Magic # its"
    "list_all (own_item X cfg cl) its"
    "p_sent (y_pool s) = commands_of its @ conn_r (r_conn (y_run s)) @ p_cmds (y_pool s)"
    "acc \<longrightarrow> list_all batch_whole bs" "commands_of p = []"
  using assms unfolding written_def Let_def by metis

lemma written_fields:
  assumes "written X cfg cl acc s"
  shows "acc \<longrightarrow> s_wr (r_sock (y_run s)) = []" "conn_config (r_conn (y_run s)) = cfg"
    "r_client (y_run s) = cl" "fitting (p_sent (y_pool s))"
  using assms by (simp_all add: written_def Let_def)

lemma writtenI:
  assumes "s_out (r_sock (y_run s)) = sent_bytes bs" "bm_data (w_buf (r_conn (y_run s))) = items_bytes p"
    "batch_items bs @ p = Magic # its" "list_all (own_item X cfg cl) its"
    "p_sent (y_pool s) = commands_of its @ conn_r (r_conn (y_run s)) @ p_cmds (y_pool s)"
    "acc \<longrightarrow> list_all batch_whole bs" "commands_of p = []" "acc \<longrightarrow> s_wr (r_sock (y_run s)) = []"
    "conn_config (r_conn (y_run s)) = cfg" "r_client (y_run s) = cl" "fitting (p_sent (y_pool s))"
  shows "written X cfg cl acc s"
  using assms unfolding written_def Let_def by metis

lemma written_loop:
  assumes "written X cfg cl acc s" "outbound X its st st'"
    and "r_sock st = r_sock (y_run s)" "w_buf (r_conn st) = w_buf (r_conn (y_run s))"
      "conn_config (r_conn st) = conn_config (r_conn (y_run s))" "r_client st = r_client (y_run s)"
    and "conn_r (r_conn st) @ cs = conn_r (r_conn (y_run s)) @ p_cmds (y_pool s)"
  shows "written X cfg cl acc (s\<lparr>y_run := st', y_over := ov,
    y_pool := (y_pool s)\<lparr>p_msgs := ms, p_cmds := cs, p_close := ks\<rparr>\<rparr>)"
proof -
  let ?st = "y_run s" and ?q = "y_pool s"
  note f = written_fields [OF assms(1)]
  obtain bs0 p0 its0 where w: "s_out (r_sock ?st) = sent_bytes bs0"
    "bm_data (w_buf (r_conn ?st)) = items_bytes p0" "batch_items bs0 @ p0 = Magic # its0"
    "list_all (own_item X cfg cl) its0" "p_sent ?q = commands_of its0 @ conn_r (r_conn ?st) @ p_cmds ?q"
    "acc \<longrightarrow> list_all batch_whole bs0" "commands_of p0 = []"
    by (rule writtenE [OF assms(1)])
  from assms(2) have o: "ships its (w_buf (r_conn ?st)) (r_sock ?st) (w_buf (r_conn st')) (r_sock st')"
    "conn_r (r_conn st) = commands_of its @ conn_r (r_conn st')" "list_all (own_item X cfg cl) its"
    "conn_config (r_conn st') = cfg" "r_client st' = cl"
    by (simp_all add: outbound_def assms(3-6) f(2,3))
  obtain bs p where s: "s_out (r_sock st') = s_out (r_sock ?st) @ sent_bytes bs"
    "bm_data (w_buf (r_conn st')) = items_bytes p" "p0 @ its = batch_items bs @ p"
    "s_wr (r_sock ?st) = [] \<longrightarrow> list_all batch_whole bs"
    "s_wr (r_sock ?st) = [] \<longrightarrow> s_wr (r_sock st') = []" "commands_of p0 = [] \<longrightarrow> commands_of p = []"
    by (rule shipsE [OF o(1) w(2)])
  show ?thesis
  proof (rule writtenI)
    show "batch_items (bs0 @ bs) @ p = Magic # its0 @ its"
      using w(3) s(3) by (metis append.assoc append_Cons map_append concat_append)
  qed (use w s o f assms(7) in auto)
qed

lemma happen_written:
  assumes "fitting_handlers H" "\<forall>a \<in> own_requests X cfg cl. cmd_ok a"
    and "written X cfg cl acc s" "happen X H a s = Some s'"
  shows "written X cfg cl acc s'"
proof (rule writtenE [OF assms(3)])
  note f = written_fields [OF assms(3)]
  fix bs p its assume w: "s_out (r_sock (y_run s)) = sent_bytes bs"
    "bm_data (w_buf (r_conn (y_run s))) = items_bytes p" "batch_items bs @ p = Magic # its"
    "list_all (own_item X cfg cl) its"
    "p_sent (y_pool s) = commands_of its @ conn_r (r_conn (y_run s)) @ p_cmds (y_pool s)"
    "acc \<longrightarrow> list_all batch_whole bs" "commands_of p = []"
  show ?thesis
  proof (cases a)
  case (Thread i)
  obtain new where new: "p_sent (run_thread X H i (y_pool s)) = p_sent (y_pool s) @ new"
      "p_cmds (run_thread X H i (y_pool s)) = p_cmds (y_pool s) @ new"
    using run_thread_cmds by blast
  have "fitting (p_sent (run_thread X H i (y_pool s)))"
    using f(4) by (rule run_thread_fitting [OF assms(1)])
  with new w f assms(4) show ?thesis
    by (intro writtenI [of _ bs p its]) (auto simp: Thread happen_def act_def)
next
  case (Ask m)
  with w f assms(4) show ?thesis
    by (intro writtenI [of _ bs p its]) (auto simp: happen_def act_def)
next
  case Leave
  with w f assms(4) show ?thesis
    by (intro writtenI [of _ bs p its]) (auto simp: happen_def act_def)
next
  case (Event ev)
  with assms(4) have "happen X H (Event ev) s = Some s'" by simp
  then show ?thesis
  proof (rule happen_eventE)
    fix ev' st' ov assume e: "flow_run (loop_event X ev' (y_run s)) = Some st'"
      and cs: "ev_cmds ev' = p_cmds (y_pool s)"
      and s': "s' = s\<lparr>y_run := st', y_over := ov, y_pool := (y_pool s)\<lparr>p_msgs := p_msgs (y_pool s) @
        sent_between (y_run s) st', p_cmds := [], p_close := []\<rparr>\<rparr>"
    have "fits_wire X (arrive ev' (y_run s))"
      using assms(2) f(2-4) w(5) by (simp add: fits_wire_def arrive_def cs)
    from loop_event_outbound [OF e this] obtain its where "outbound X its (arrive ev' (y_run s)) st'"
      by blast
    then show ?thesis
      unfolding s' by (rule written_loop [OF assms(3)]) (simp_all add: arrive_def cs)
  qed
next
  case (Tick now)
  have "written X cfg cl acc (s\<lparr>y_run := check_heartbeat now (y_run s), y_over := y_over s,
    y_pool := (y_pool s)\<lparr>p_msgs := p_msgs (y_pool s) @ sent_between (y_run s) (check_heartbeat now (y_run s)),
      p_cmds := p_cmds (y_pool s), p_close := p_close (y_pool s)\<rparr>\<rparr>)"
    by (intro written_loop [OF assms(3) check_heartbeat_traffic(2)]) simp_all
  with assms(4) show ?thesis
    by (auto simp: Tick happen_def system_tick_def hand_over_def split: if_splits)
next
  case EnterTls
  with w f assms(4) show ?thesis
    by (intro writtenI [of _ bs p its]) (auto simp: happen_def split: if_splits)
qed
qed

text \<open>
  The start of a client whose handlers and requests fit the protocol, on a fresh socket.
\<close>

definition proper_start ::
  "ext \<Rightarrow> 'h handlers \<Rightarrow> client \<Rightarrow> world \<Rightarrow> nat \<Rightarrow> 'h pool \<Rightarrow> 'h system \<Rightarrow> bool"
where
  "proper_start X H cl W addr p s \<longleftrightarrow>
     fresh_start X cl W addr p s \<and> s_out (w_stream W addr) = [] \<and>
     fitting_handlers H \<and> (\<forall>a \<in> own_requests X (cl_config cl) cl. cmd_ok a)"

lemma proper_fresh: "proper_start X H cl W addr p s \<Longrightarrow> fresh_start X cl W addr p s"
  by (simp add: proper_start_def)

lemma start_written:
  assumes "proper_start X H cl W addr p s"
  shows "written X (cl_config cl) cl (s_wr (w_stream W addr) = []) s"
proof (rule fresh_startE [OF proper_fresh [OF assms]])
  have "fresh p" "p_cmds p = []" "s_out (w_stream W addr) = []"
    using assms by (simp_all add: proper_start_def fresh_start_def)
  then show ?thesis if "bm_data b = as_bytes VERSION"
    "s = \<lparr>y_run = run_start cl W ((conn_new X (cl_config cl) [] [] [] (cl_msg_timeout cl))
          \<lparr>w_buf := b, conn_state := SIdentify\<rparr>) addr, y_pool = p, y_over = False\<rparr>" for b
    unfolding that
    by (intro writtenI [of _ "[]" "[Magic]" "[]"]) (use that in \<open>auto simp: run_start_def conn_new_def fresh_def\<close>)
qed

lemma always_written:
  assumes "proper_start X H cl W addr p s" "history X H as s = Some s'"
  shows "written X (cl_config cl) cl (s_wr (w_stream W addr) = []) s'"
proof -
  have "fitting_handlers H" "\<forall>a \<in> own_requests X (cl_config cl) cl. cmd_ok a"
    using assms(1) by (simp_all add: proper_start_def)
  from happen_written [OF this] start_written [OF assms(1)] assms(2) show ?thesis
    by (rule history_inv)
qed

section \<open>From the server to the handlers\<close>

definition msg_parts :: "msg \<Rightarrow> i64 \<times> u16 \<times> string \<times> bytes" where
  "msg_parts m = (msg_timestamp m, msg_attemps m, msg_id m, msg_body m)"

lemma as_msg_parts: "as_msg X m = Some d \<Longrightarrow> decode_msg X (msg_bytes m) = Inr (msg_parts d)"
  by (cases m) (auto simp: as_msg_def msg_parts_def split: sum.splits prod.splits)

lemma handled_parts:
  "map (as_msg X) ms = map Some ds @ later \<Longrightarrow>
     \<exists>rest. map (decode_msg X) (map msg_bytes ms) = map (Inr \<circ> msg_parts) ds @ rest"
proof (induction ds arbitrary: ms)
  case Nil
  then show ?case by simp
next
  case (Cons d ds)
  then obtain m ms' where ms: "ms = m # ms'" "as_msg X m = Some d"
      "map (as_msg X) ms' = map Some ds @ later"
    by (cases ms) auto
  from Cons.IH [OF ms(3)] as_msg_parts [OF ms(2)] show ?case by (auto simp: ms(1))
qed

lemma received_handled:
  assumes "received X D s"
  shows "\<exists>fs left rest. D = concat (map enc_frame fs) @ left \<and>
    map (decode_msg X) (with_content (payloads fs)) = map (Inr \<circ> msg_parts) (p_handled (y_pool s)) @ rest"
proof -
  let ?p = "y_pool s"
  from assms obtain fs where fs:
      "D = concat (map enc_frame fs) @ r_buf (r_conn (y_run s)) @ stream_bytes (r_sock (y_run s))"
      "map msg_bytes (contents (p_taken ?p)) @ map msg_bytes (contents (p_msgs ?p)) =
        with_content (payloads fs)"
    and q: "queue_inv X ?p"
    by (auto simp: received_def Let_def)
  from q obtain later where "map (as_msg X) (contents (p_taken ?p)) = map Some (p_handled ?p) @ later"
    by (auto simp: queue_inv_def)
  from handled_parts [OF this] obtain rest where
    "map (decode_msg X) (map msg_bytes (contents (p_taken ?p))) = map (Inr \<circ> msg_parts) (p_handled ?p) @ rest"
    by blast
  then have "map (decode_msg X) (with_content (payloads fs)) = map (Inr \<circ> msg_parts) (p_handled ?p) @
      rest @ map (decode_msg X) (map msg_bytes (contents (p_msgs ?p)))"
    by (simp only: map_append append_assoc flip: fs(2))
  with fs(1) show ?thesis by blast
qed

section \<open>Stopping\<close>

lemma history_threads:
  "history X H (map Thread is) s = Some (s\<lparr>y_pool := schedule X H (map Run is) (y_pool s)\<rparr>)"
  by (induction "is" arbitrary: s) (simp_all add: happen_def, simp add: schedule_def)

text \<open>What the loop hands over is appended to the queue of the readers and nothing else.\<close>

lemma happen_shape:
  assumes "received X D s" "happen X H a s = Some s'" "split_law X" "length D < 2 ^ 63"
  shows "(\<exists>b. y_pool s' = act X H b (y_pool s) \<and> y_run s' = y_run s \<and> (\<forall>m. b \<noteq> Deliver m)) \<or>
    (\<exists>ms cs ks. conn_s (r_conn (y_run s')) = conn_s (r_conn (y_run s)) @ ms \<and>
       y_pool s' = (y_pool s)\<lparr>p_msgs := p_msgs (y_pool s) @ ms, p_cmds := cs, p_close := ks\<rparr>)"
proof (cases a)
  case (Event ev)
  with assms(2) have "happen X H (Event ev) s = Some s'" by simp
  then show ?thesis
  proof (rule happen_eventE)
    fix ev' st' ov assume e: "flow_run (loop_event X ev' (y_run s)) = Some st'"
      and s': "s' = s\<lparr>y_run := st', y_over := ov, y_pool := (y_pool s)\<lparr>p_msgs := p_msgs (y_pool s) @
        sent_between (y_run s) st', p_cmds := [], p_close := []\<rparr>\<rparr>"
    have "small_input (y_run s)"
      using assms(1,4) by (auto simp: received_def Let_def small_input_def)
    from loop_event_inbound [OF e assms(3) this] obtain ms where
      "conn_s (r_conn st') = conn_s (r_conn (y_run s)) @ ms" by (auto simp: inbound_def arrive_def)
    then show ?thesis
      by (intro disjI2 exI [of _ ms] exI [of _ "[]"]) (simp add: s' sent_between_def)
  qed
next
  case (Tick now)
  then show ?thesis
    using assms(2)
    by (intro disjI2 exI [of _ "sent_between (y_run s) (check_heartbeat now (y_run s))"]
        exI [of _ "p_cmds (y_pool s)"] exI [of _ "p_close (y_pool s)"])
      (auto simp: happen_def system_tick_def hand_over_def sent_between_def check_heartbeat_def
        send_close_msg_def ch_send_def split: if_splits)
next
  case EnterTls
  then show ?thesis
    using assms(2)
    by (intro disjI2 exI [of _ "[]"] exI [of _ "p_cmds (y_pool s)"] exI [of _ "p_close (y_pool s)"])
      (auto simp: happen_def split: if_splits)
qed (use assms(2) in \<open>auto simp: happen_def\<close>)

lemma channels_serving:
  "serving X (p\<lparr>p_msgs := p_msgs p @ ms, p_cmds := cs, p_close := ks\<rparr>) \<longleftrightarrow>
     serving X p \<and> list_all (decodable X) ms"
  by (auto simp: serving_def stop_inv_def)

lemma history_serving:
  assumes "split_law X" "length D < 2 ^ 63" "obedient H"
  shows "received X D s \<Longrightarrow> history X H as s = Some s' \<Longrightarrow> serving X (y_pool s) \<Longrightarrow>
    list_all (decodable X) (conn_s (r_conn (y_run s'))) \<Longrightarrow> serving X (y_pool s')"
proof (induction as arbitrary: s' rule: rev_induct)
  case Nil
  then show ?case by simp
next
  case (snoc a as)
  then obtain s1 where s1: "history X H as s = Some s1" "happen X H a s1 = Some s'"
    by (auto simp: history_append bind_eq_Some_conv)
  have f: "received X D s1" by (rule history_received [OF assms(1,2) snoc.prems(1) s1(1)])
  from happen_shape [OF f s1(2) assms(1,2)] show ?case
  proof (elim disjE exE conjE)
    fix b assume b: "y_pool s' = act X H b (y_pool s1)" "y_run s' = y_run s1" "\<forall>m. b \<noteq> Deliver m"
    with snoc.IH [OF snoc.prems(1) s1(1) snoc.prems(3)] snoc.prems(4) show ?thesis
      unfolding b(1) by (intro act_serving [OF assms(3)]) simp_all
  next
    fix ms cs ks assume m: "conn_s (r_conn (y_run s')) = conn_s (r_conn (y_run s1)) @ ms"
      "y_pool s' = (y_pool s1)\<lparr>p_msgs := p_msgs (y_pool s1) @ ms, p_cmds := cs, p_close := ks\<rparr>"
    with snoc.IH [OF snoc.prems(1) s1(1) snoc.prems(3)] snoc.prems(4) show ?thesis
      by (simp add: channels_serving)
  qed
qed

text \<open>A close request in the channel ends \<open>run\<close> and sends the stop message.\<close>

lemma close_request_ends:
  assumes "r_close (y_run s) = []" "p_close (y_pool s) = [1]" "ev_token ev = CMD_TOKEN" "\<not> y_over s"
  shows "\<exists>s'. happen X H (Event ev) s = Some s' \<and> y_over s' \<and>
    conn_s (r_conn (y_run s')) = conn_s (r_conn (y_run s)) @ [BytesMsg 0 []] \<and>
    y_pool s' = (y_pool s)\<lparr>p_msgs := p_msgs (y_pool s) @ [BytesMsg 0 []], p_cmds := [], p_close := []\<rparr>"
  using assms
  by (simp add: happen_def system_event_def loop_event_def plain_event_def tls_event_def Let_def
      arrive_def plain_close_def tls_close_def send_close_msg_def ch_send_def hand_over_def
      sent_between_def)

lemma ask_close:
  assumes "p_threads (y_pool s) ! j = MRecv" "j < length (p_threads (y_pool s))"
    and "p_close (y_pool s) = []" "\<not> p_user_gone (y_pool s)"
  shows "\<exists>p. history X H [Ask m, Thread j] s = Some (s\<lparr>y_pool := p\<rparr>) \<and> p_close p = [1] \<and>
    p = schedule X H [UserCmd m, Run j] (y_pool s)"
  using assms
  by (cases "p_in_cmd (y_pool s)")
    (simp_all add: happen_def act_def run_thread_def closer_recv_def goto_def ch_send_def,
      simp_all add: schedule_def)

text \<open>Readers that have ended stay so, whatever happens.\<close>

lemma close_inv_msgs [simp]: "close_inv (p\<lparr>p_msgs := ms\<rparr>) = close_inv p"
  using channels_inv(1) [where p = p and ms = ms and cs = "p_cmds p" and ks = "p_close p"] by simp

lemma happen_ended:
  assumes "ended ds (y_pool s)" "happen X H a s = Some s'"
  shows "ended ds (y_pool s')"
proof (cases a)
  case (Event ev)
  with assms show ?thesis by (auto simp: ended_def elim!: happen_eventE)
qed (use assms in \<open>auto simp: happen_def act_ended, auto simp: ended_def system_tick_def hand_over_def
    split: if_splits\<close>)

lemma history_ended: "ended ds (y_pool s) \<Longrightarrow> history X H as s = Some s' \<Longrightarrow> ended ds (y_pool s')"
  by (rule history_inv [of "\<lambda>s. ended ds (y_pool s)"]) (rule happen_ended)

end
