(* ===== verification/System_Props.thy ===== *)
theory System_Props
  imports System Client_Session
begin

text \<open>
  The properties of the whole client: what handlers are given is what the server has sent
  (\<open>handlers_get_what_the_server_sent\<close>), what is written is what was said
  (\<open>commands_reach_the_server_in_order\<close>), and a close request of the user ends the loop and all
  consumers (\<open>user_close_ends_the_client\<close>). \<open>demo_history\<close> is a short life of a client: the
  answer to IDENTIFY and a message are read, a consumer finishes the message, and the waker has
  the FIN written.
\<close>

section \<open>A client at work\<close>

definition demo_stream :: bytes where
  "demo_stream = concat (map enc_frame [(FRAME_TYPE_RESPONSE, as_bytes ''{}''),
     (FRAME_TYPE_MESSAGE, demo_bytes ''0123456789abcdef'')])"

definition demo_net :: world where
  "demo_net = demo_world [RdData demo_stream]"

definition waker_ev :: event where
  "waker_ev = (wr_ev 1)\<lparr>ev_token := CLIENT_TOKEN\<rparr>"

text \<open>The answer and a message arrive, a consumer finishes it, the waker has the FIN written.\<close>

definition demo_history :: "happening list" where
  "demo_history = Event (rd_ev 1) # map Thread [0, 0, 0] @ [Event waker_ev]"

lemma demo_fitting: "fitting_handlers example_handlers"
proof -
  have "body_ok my_producer_msgs"
    using my_producer_batch body_ok_many [of my_producer_msgs] by simp
  then show ?thesis
    by (simp add: fitting_handlers_def example_handlers_def my_reader_on_msg_def default_on_close_def
        my_producer_publish_def cmd_ok_def)
qed

lemma demo_length: "length (demo_bytes ident) = length ident + 11"
  by (simp add: demo_bytes_def encode_msg_def)

lemma demo_proper:
  obtains s b where "proper_start demo_ext example_handlers (demo_client ''t'' ''c'') demo_net 0 demo_pool s"
    "y_pool s = demo_pool" "\<not> y_over s" "bm_wf b" "bm_data b = as_bytes VERSION"
    "y_run s = run_start (demo_client ''t'' ''c'') demo_net
       (demo_conn\<lparr>w_buf := b, conn_state := SIdentify\<rparr>) 0"
proof -
  let ?cl = "demo_client ''t'' ''c''"
  have cl: "cl_config ?cl = config_default None" "cl_cmd_channel ?cl = []" "cl_msg_channel ?cl = []"
      "cl_msg_timeout ?cl = 0" "cl_secret ?cl = Some ''pw''" "cl_topic ?cl = ''t''" "cl_channel ?cl = ''c''"
    by (simp_all add: demo_client_def client_new_def)
  obtain b where b: "write_magic demo_ext VERSION (bm_new demo_ext) = Inr b" "bm_wf b"
      "bm_data b = as_bytes VERSION"
    using write_magic_appends [of demo_ext "bm_new demo_ext" VERSION] by (auto simp: VERSION_def)
  let ?s = "\<lparr>y_run = run_start ?cl demo_net (demo_conn\<lparr>w_buf := b, conn_state := SIdentify\<rparr>) 0,
    y_pool = demo_pool, y_over = False\<rparr>"
  have w: "w_buf demo_conn = bm_new demo_ext" by (simp add: demo_conn_def conn_new_def)
  have "magic demo_ext demo_conn = Inr (demo_conn\<lparr>w_buf := b, conn_state := SIdentify\<rparr>)"
    unfolding magic_def w b(1) by simp
  then have "system_start demo_ext ?cl demo_net 0 demo_pool = Inr ?s"
    unfolding system_start_def cl by (simp flip: demo_conn_def)
  moreover have "\<forall>a \<in> own_requests demo_ext (cl_config ?cl) ?cl. cmd_ok a"
    by (simp add: own_requests_def cl cmd_ok_def msg_ok_def demo_ext_def)
  moreover have "length (stream_bytes (w_stream demo_net 0)) < 2 ^ 63"
    by (simp add: demo_net_def demo_world_def demo_sock_def stream_bytes_def demo_stream_def
        enc_frame_def demo_length)
  ultimately have "proper_start demo_ext example_handlers ?cl demo_net 0 demo_pool ?s"
    using demo_fitting demo_pool_fresh
    by (simp add: proper_start_def fresh_start_def cl demo_net_def demo_world_def demo_sock_def)
      (simp add: demo_pool_def spawn_def spawn_wakers_def pool_new_def)
  then show ?thesis by (rule that) (use b in simp_all)
qed

lemma demo_answer_read:
  assumes "c = demo_conn\<lparr>w_buf := b, conn_state := SIdentify\<rparr>"
    "st = run_start (demo_client ''t'' ''c'') demo_net c 0"
  shows "\<exists>st'. plain_event demo_ext (rd_ev 1) st = Continue st' \<and> r_tls st' = 0 \<and>
    r_sock st' = (r_sock st)\<lparr>s_in := []\<rparr> \<and> conn_s (r_conn st') = [BytesMsg 0 (demo_bytes ''0123456789abcdef'')] \<and>
    conn_r (r_conn st') = [] \<and> w_buf (r_conn st') = b \<and> in_flight (r_conn st') = 1 \<and> processed (r_conn st') = 0 \<and> r_close st' = []"
proof -
  let ?fs = "[(FRAME_TYPE_RESPONSE, as_bytes ''{}''), (FRAME_TYPE_MESSAGE, demo_bytes ''0123456789abcdef'')]"
  have len: "length demo_stream = 45" "demo_stream \<noteq> []"
    by (simp_all add: demo_stream_def enc_frame_def demo_length)
  have sk: "r_sock st = demo_sock [RdData demo_stream]" "r_conn st = c" "r_tls st = 0" "r_close st = []"
      "r_client st = demo_client ''t'' ''c''"
    by (simp_all add: assms(2) run_start_def demo_net_def demo_world_def)
  have cf: "conn_state c = SIdentify" "conn_r c = []" "w_buf c = b" "processed c = 0"
      "x_nsqd_json demo_ext j = Some nsqd_config_default" for j
    by (simp_all add: assms(1) demo_ext_def)
  have utf: "from_utf8 [123, 125] = Some ''{}''"
    using from_utf8_as_bytes [of "''{}''"] by (simp add: valid_str_def utf8_ranges_def)
  have rd: "sock_read (unat (output_buffer_size (conn_config c))) (r_sock st) = (Inr demo_stream, demo_sock [])"
    using len by (simp add: sk sock_read_def demo_sock_def assms(1))
  have "feed demo_ext demo_stream c = Inr (frames_effect ?fs (c\<lparr>r_buf := []\<rparr>))"
    by (rule feed_frames) (use len in \<open>simp_all add: assms(1) demo_stream_def frame_fits_def demo_length waits_def
      frames_ok_def delivered_def utf8_ranges_def codec_consts\<close>)
  then have "read_tcp demo_ext c (r_sock st) = Inr (Inr 45, frames_effect ?fs (c\<lparr>r_buf := []\<rparr>), demo_sock [])"
    using len by (simp add: read_tcp_feed [OF rd])
  moreover have "frames_effect ?fs (c\<lparr>r_buf := []\<rparr>) = c\<lparr>conn_s := [BytesMsg 0 (demo_bytes ''0123456789abcdef'')],
      responses := [Response ''{}''], in_flight := 1\<rparr>"
    by (simp add: frames_effect_def assms(1) delivered_def answer_of_def is_heartbeat_def codec_consts HEARTBEAT_def
        List.map_filter_simps demo_conn_def conn_new_def utf8_ranges_def utf)
  ultimately show ?thesis
    using cf by (simp add: plain_event_rd plain_read_def sk after_read_def plain_response_def
        expect_response_def conn_get_response_def auth_gate_def set_state_def Let_def nsqd_config_default_def
        response_done_def demo_sock_def)
qed

lemma flush_one:
  assumes "reserve_law X" "bm_wf (w_buf c)" "cmd_ok (RawCmd m)" "s_wr sk = []"
    and "length (bm_data (w_buf c)) + length (wire_cmd (RawCmd m)) < 2 ^ 63"
    and "conn_r c = [m]" "in_flight c = 1" "processed c = 0"
  shows "\<exists>c'. write_messages X clock c sk = Inr (c', sk\<lparr>s_out := s_out sk @ bm_data (w_buf c) @ wire_cmd (RawCmd m)\<rparr>) \<and>
    conn_r c' = [] \<and> bm_data (w_buf c') = []"
proof -
  have "bm_wf (w_buf (c\<lparr>conn_r := []\<rparr>))"
      "length (bm_data (w_buf (c\<lparr>conn_r := []\<rparr>))) + length (wire_cmd (RawCmd m)) < 2 ^ 63"
    using assms(2,5) by simp_all
  then obtain b where "conn_write_cmd X (RawCmd m) (c\<lparr>conn_r := []\<rparr>) = Inr (c\<lparr>conn_r := [], w_buf := b\<rparr>)"
      "bm_data b = bm_data (w_buf c) @ wire_cmd (RawCmd m)"
    by (rule conn_write_cmdE [OF assms(1) _ assms(3)]) simp
  with assms(4,6-8) show ?thesis
    by (simp add: write_messages_def sub_u32_def add_u32_def)
qed

definition demo_id :: string where
  "demo_id = ''0123456789abcdef''"

text \<open>The waker's event writes the one waiting command behind what the buffer holds.\<close>

lemma waker_writes_one:
  assumes "\<not> y_over s" "r_tls (y_run s) = 0" "conn_r (r_conn (y_run s)) = []"
    and "p_cmds (y_pool s) = [as_cmd (Fin demo_id)]" "bm_wf (w_buf (r_conn (y_run s)))"
    and "bm_data (w_buf (r_conn (y_run s))) = as_bytes VERSION" "s_wr (r_sock (y_run s)) = []"
    and "in_flight (r_conn (y_run s)) = 1" "processed (r_conn (y_run s)) = 0"
  shows "\<exists>s'. happen demo_ext H (Event waker_ev) s = Some s' \<and>
    p_handled (y_pool s') = p_handled (y_pool s) \<and> p_sent (y_pool s') = p_sent (y_pool s) \<and>
    p_cmds (y_pool s') = [] \<and> conn_r (r_conn (y_run s')) = [] \<and>
    bm_data (w_buf (r_conn (y_run s'))) = []"
proof -
  let ?st = "y_run s" and ?fin = "as_cmd (Fin demo_id)"
  let ?ev = "waker_ev\<lparr>ev_cmds := [?fin], ev_close := p_close (y_pool s)\<rparr>"
  let ?c = "r_conn (arrive ?ev ?st)"
  have fin: "cmd_ok (RawCmd ?fin)" "length (wire_cmd (RawCmd ?fin)) = 21"
    by (simp_all add: wire_cmd_def wire_line_def cmd_ok_def demo_id_def)
  have c: "bm_wf (w_buf ?c)" "conn_r ?c = [?fin]" "in_flight ?c = 1" "processed ?c = 0"
      "length (bm_data (w_buf ?c)) + length (wire_cmd (RawCmd ?fin)) < 2 ^ 63"
    using assms(3,5,6,8,9) fin(2) by (simp_all add: arrive_def VERSION_def)
  obtain c' sk where "write_messages demo_ext (ev_clock ?ev) ?c (r_sock ?st) = Inr (c', sk)"
      "conn_r c' = []" "bm_data (w_buf c') = []"
    using flush_one [OF demo_laws(1) c(1) fin(1) assms(7) c(5,2-4)] by blast
  moreover have "r_sock (arrive ?ev ?st) = r_sock ?st" by (simp add: arrive_def)
  ultimately have "\<exists>st'. flush_commands demo_ext ?ev (arrive ?ev ?st) = Inr st' \<and>
      conn_r (r_conn st') = [] \<and> bm_data (w_buf (r_conn st')) = []"
    by (simp add: flush_commands_def)
  moreover have "plain_event demo_ext ?ev ?st = flow_of (flush_commands demo_ext ?ev (arrive ?ev ?st)) Continue"
    by (simp add: plain_event_def Let_def) (simp add: waker_ev_def token_defs)
  ultimately show ?thesis
    using assms(1,2,4) by (auto simp: happen_def system_event_def Let_def loop_event_def hand_over_def)
qed

lemma demo_consumed:
  "schedule demo_ext example_handlers [Run 0, Run 0, Run 0]
     (demo_pool\<lparr>p_msgs := [BytesMsg 0 (demo_bytes demo_id)]\<rparr>) =
   demo_pool\<lparr>p_taken := [BytesMsg 0 (demo_bytes demo_id)], p_handled := [\<lparr>msg_timeout_ms = 0,
       msg_timestamp = 5, msg_attemps = 1, msg_id = demo_id, msg_body = [7]\<rparr>],
     p_cmds := [as_cmd (Fin demo_id)], p_sentinel := [()], p_sent := [as_cmd (Fin demo_id)]\<rparr>"
proof -
  have "decode_msg demo_ext (demo_bytes demo_id) = Inr (5, 1, demo_id, [7])"
    by (rule demo_decode) (simp_all add: demo_id_def valid_str_def utf8_ranges_def)
  then show ?thesis
    by (simp add: schedule_def act_def run_thread_def thread_step_defs demo_pool_def
        spawn_def spawn_wakers_def pool_new_def numeral_2_eq_2 ch_send_def example_handlers_def
        my_reader_on_msg_def context_send_def)
qed

text \<open>The state after the first event.\<close>

lemma demo_after_read:
  obtains s st1 b where
    "proper_start demo_ext example_handlers (demo_client ''t'' ''c'') demo_net 0 demo_pool s"
    "happen demo_ext example_handlers (Event (rd_ev 1)) s =
       Some (s\<lparr>y_run := st1, y_pool := demo_pool\<lparr>p_msgs := [BytesMsg 0 (demo_bytes demo_id)]\<rparr>,
         y_over := False\<rparr>)"
    "r_tls st1 = 0" "s_wr (r_sock st1) = []" "conn_s (r_conn st1) = [BytesMsg 0 (demo_bytes demo_id)]"
    "conn_r (r_conn st1) = []" "bm_wf (w_buf (r_conn st1))" "bm_data (w_buf (r_conn st1)) = as_bytes VERSION"
    "in_flight (r_conn st1) = 1" "processed (r_conn st1) = 0" "r_close st1 = []"
proof -
  let ?cl = "demo_client ''t'' ''c''"
  obtain s b where s: "proper_start demo_ext example_handlers ?cl demo_net 0 demo_pool s"
    "y_pool s = demo_pool" "\<not> y_over s" "bm_wf b" "bm_data b = as_bytes VERSION"
    "y_run s = run_start ?cl demo_net (demo_conn\<lparr>w_buf := b, conn_state := SIdentify\<rparr>) 0"
    by (rule demo_proper)
  obtain st1 where st1: "plain_event demo_ext (rd_ev 1) (y_run s) = Continue st1" "r_tls st1 = 0"
      "r_sock st1 = (r_sock (y_run s))\<lparr>s_in := []\<rparr>"
      "conn_s (r_conn st1) = [BytesMsg 0 (demo_bytes demo_id)]" "conn_r (r_conn st1) = []"
      "w_buf (r_conn st1) = b" "in_flight (r_conn st1) = 1" "processed (r_conn st1) = 0" "r_close st1 = []"
    using demo_answer_read [OF refl s(6)] unfolding demo_id_def by blast
  have pool: "p_msgs demo_pool = []" "p_cmds demo_pool = []" "p_close demo_pool = []"
    by (simp_all add: demo_pool_def spawn_def spawn_wakers_def pool_new_def)
  then have same: "demo_pool\<lparr>p_cmds := [], p_close := []\<rparr> = demo_pool" by simp
  have ev: "(rd_ev t)\<lparr>ev_cmds := [], ev_close := []\<rparr> = rd_ev t" for t by (simp add: rd_ev_def)
  have "r_tls (y_run s) = 0" "conn_s (r_conn (y_run s)) = []" "s_wr (r_sock (y_run s)) = []"
    by (simp_all add: s(6) run_start_def demo_conn_def conn_new_def demo_net_def demo_world_def demo_sock_def)
  then show ?thesis
    using s(2-5) pool st1
    by (intro that [OF s(1), of st1])
      (simp_all add: happen_def system_event_def Let_def ev loop_event_def hand_over_def same
        sent_between_def)
qed

text \<open>The consumer has finished the message; its command waits for the waker.\<close>

lemma demo_finished:
  obtains s s1 where
    "proper_start demo_ext example_handlers (demo_client ''t'' ''c'') demo_net 0 demo_pool s"
    "history demo_ext example_handlers (Event (rd_ev 1) # map Thread [0, 0, 0]) s = Some s1"
    "\<not> y_over s1" "r_tls (y_run s1) = 0" "conn_r (r_conn (y_run s1)) = []"
    "p_cmds (y_pool s1) = [as_cmd (Fin demo_id)]" "p_sent (y_pool s1) = [as_cmd (Fin demo_id)]"
    "map msg_id (p_handled (y_pool s1)) = [demo_id]" "bm_wf (w_buf (r_conn (y_run s1)))"
    "bm_data (w_buf (r_conn (y_run s1))) = as_bytes VERSION" "s_wr (r_sock (y_run s1)) = []"
    "in_flight (r_conn (y_run s1)) = 1" "processed (r_conn (y_run s1)) = 0"
    "conn_s (r_conn (y_run s1)) = [BytesMsg 0 (demo_bytes demo_id)]"
proof (rule demo_after_read)
  let ?start = "demo_pool\<lparr>p_msgs := [BytesMsg 0 (demo_bytes demo_id)]\<rparr>"
  let ?p = "schedule demo_ext example_handlers [Run 0, Run 0, Run 0] ?start"
  fix s :: "unit system" and st1
  let ?s1 = "s\<lparr>y_run := st1, y_pool := ?start, y_over := False\<rparr>"
  assume s: "proper_start demo_ext example_handlers (demo_client ''t'' ''c'') demo_net 0 demo_pool s"
    and e1: "happen demo_ext example_handlers (Event (rd_ev 1)) s = Some ?s1"
    and st1: "r_tls st1 = 0" "s_wr (r_sock st1) = []" "conn_r (r_conn st1) = []" "bm_wf (w_buf (r_conn st1))"
      "bm_data (w_buf (r_conn st1)) = as_bytes VERSION" "in_flight (r_conn st1) = 1"
      "processed (r_conn st1) = 0" "conn_s (r_conn st1) = [BytesMsg 0 (demo_bytes demo_id)]"
  have "history demo_ext example_handlers (map Thread [0, 0, 0]) ?s1 = Some (?s1\<lparr>y_pool := ?p\<rparr>)"
    by (simp only: history_threads) simp
  then have "history demo_ext example_handlers (Event (rd_ev 1) # map Thread [0, 0, 0]) s =
      Some (?s1\<lparr>y_pool := ?p\<rparr>)"
    by (simp only: history.simps e1 Option.bind.simps)
  then show ?thesis
    by (rule that [OF s(1)]) (use st1 in \<open>simp_all add: demo_consumed del: schedule_Cons\<close>)
qed

lemma demo_run_history:
  obtains s s' where
    "proper_start demo_ext example_handlers (demo_client ''t'' ''c'') demo_net 0 demo_pool s"
    "history demo_ext example_handlers demo_history s = Some s'"
    "map msg_id (p_handled (y_pool s')) = [demo_id]"
    "p_sent (y_pool s') = [as_cmd (Fin demo_id)]" "p_cmds (y_pool s') = []"
    "conn_r (r_conn (y_run s')) = []" "bm_data (w_buf (r_conn (y_run s'))) = []"
proof (rule demo_finished)
  fix s s1 :: "unit system"
  assume s: "proper_start demo_ext example_handlers (demo_client ''t'' ''c'') demo_net 0 demo_pool s"
    and s1: "history demo_ext example_handlers (Event (rd_ev 1) # map Thread [0, 0, 0]) s = Some s1"
    and at: "\<not> y_over s1" "r_tls (y_run s1) = 0" "conn_r (r_conn (y_run s1)) = []"
      "p_cmds (y_pool s1) = [as_cmd (Fin demo_id)]" "bm_wf (w_buf (r_conn (y_run s1)))"
      "bm_data (w_buf (r_conn (y_run s1))) = as_bytes VERSION" "s_wr (r_sock (y_run s1)) = []"
      "in_flight (r_conn (y_run s1)) = 1" "processed (r_conn (y_run s1)) = 0"
    and h: "map msg_id (p_handled (y_pool s1)) = [demo_id]" "p_sent (y_pool s1) = [as_cmd (Fin demo_id)]"
  obtain s' where s': "happen demo_ext example_handlers (Event waker_ev) s1 = Some s'"
      "p_handled (y_pool s') = p_handled (y_pool s1)" "p_sent (y_pool s') = p_sent (y_pool s1)"
      "p_cmds (y_pool s') = []" "conn_r (r_conn (y_run s')) = []" "bm_data (w_buf (r_conn (y_run s'))) = []"
    using waker_writes_one [OF at] by blast
  have "history demo_ext example_handlers [Event waker_ev] s1 = Some s'" by (simp add: s'(1))
  with s1 have "history demo_ext example_handlers ((Event (rd_ev 1) # map Thread [0, 0, 0]) @ [Event waker_ev]) s =
      Some s'"
    by (simp only: history_append Option.bind.simps)
  then have "history demo_ext example_handlers demo_history s = Some s'" by (simp add: demo_history_def)
  then show ?thesis by (rule that [OF s]) (use s' h in simp_all)
qed

section \<open>The example programs\<close>

text \<open>
  The clients the \<open>main\<close> functions of the examples build start properly, so the properties below
  hold of these programs: all they need is a fresh stream that fits the address space and a
  configuration whose JSON fits the length field of IDENTIFY. The consumer
  program has eight consumers, which never panic, and no producer.
\<close>

lemma example_main_starts:
  assumes "consumer_main host = (cl, p) \<or> producer_main host = (cl, p)"
    and "s_out (w_stream W addr) = []" "length (stream_bytes (w_stream W addr)) < 2 ^ 63"
    and "\<And>j. x_config_json X (cl_config cl) = Some j \<Longrightarrow> length (as_bytes j) < 2 ^ 32"
    and "reserve_law X"
  shows "\<exists>s. proper_start X example_handlers cl W addr (spawn_wakers p) s"
proof -
  have cl: "cl_secret cl = None" "cl_cmd_channel cl = []" "cl_msg_channel cl = []"
      and p: "fresh (spawn_wakers p)" "p_cmds (spawn_wakers p) = []"
    using assms(1) by (auto simp: consumer_main_def producer_main_def client_new_def spawn_def
        spawn_producer_def spawn_wakers_def pool_new_def fresh_def list_all_iff)
  obtain b where "write_magic X VERSION (bm_new X) = Inr b"
    using write_magic_appends [of X "bm_new X" VERSION] assms(5) by (auto simp: VERSION_def)
  then have "\<exists>s. system_start X cl W addr (spawn_wakers p) = Inr s"
    by (simp add: system_start_def magic_def conn_new_def)
  moreover have "\<forall>a \<in> own_requests X (cl_config cl) cl. cmd_ok a"
    using assms(4) by (auto simp: own_requests_def cl cmd_ok_def msg_ok_def)
  ultimately show ?thesis
    using assms(2,3) demo_fitting by (simp add: proper_start_def fresh_start_def cl p)
qed

lemma consumer_main_serves:
  assumes "consumer_main host = (cl, p)"
  shows "length (filter consumer (p_threads (spawn_wakers p))) = 8"
    "list_all (\<lambda>th. \<not> producer th) (p_threads (spawn_wakers p))" "obedient example_handlers"
    "tls_v1 (cl_config cl)" "\<not> is_producer cl"
  using assms
  by (auto simp: consumer_main_def spawn_def spawn_wakers_def pool_new_def client_new_def config_tls_def
      is_producer_def obedient_def example_handlers_def my_reader_on_msg_def default_on_close_def list_all_iff)

section \<open>The properties\<close>

text \<open>
  C2: handlers are only given what the server has sent, whole and in order. Whatever the server
  sends, however it is cut into reads, and however the events of the loop, the threads and the
  user interleave: the messages the handlers have been given are, one for one, the decodings of
  the first non-empty MESSAGE frames of the server's stream; none is invented, altered, skipped,
  repeated or overtaken.
\<close>

theorem handlers_get_what_the_server_sent:
  assumes "split_law X" "fresh_start X cl W addr p s" "history X H as s = Some s'"
  shows "\<exists>fs left rest. stream_bytes (w_stream W addr) = concat (map enc_frame fs) @ left \<and>
    map (decode_msg X) (with_content (payloads fs)) =
      map (Inr \<circ> msg_parts) (p_handled (y_pool s')) @ rest"
  by (rule received_handled [OF always_received [OF assms]])

theorem handlers_get_what_the_server_sent_witness:
  "\<exists>(s :: unit system) s'. history demo_ext example_handlers demo_history s = Some s' \<and>
     map msg_id (p_handled (y_pool s')) = [demo_id] \<and>
     (\<exists>fs left rest. demo_stream = concat (map enc_frame fs) @ left \<and>
        map (decode_msg demo_ext) (with_content (payloads fs)) =
          map (Inr \<circ> msg_parts) (p_handled (y_pool s')) @ rest)"
proof -
  obtain s s' where s: "proper_start demo_ext example_handlers (demo_client ''t'' ''c'') demo_net 0 demo_pool s"
    "history demo_ext example_handlers demo_history s = Some s'"
    "map msg_id (p_handled (y_pool s')) = [demo_id]"
    by (rule demo_run_history)
  have "stream_bytes (w_stream demo_net 0) = demo_stream"
    by (simp add: demo_net_def demo_world_def demo_sock_def stream_bytes_def)
  with handlers_get_what_the_server_sent [OF demo_laws(2) proper_fresh [OF s(1)] s(2)] s show ?thesis by metis
qed

text \<open>
  C3: what goes over the wire is what was said. On any socket, whatever it does with the writes,
  the bytes it has taken are batches of whole commands, each cut off at the number of bytes the
  socket took of it; put together, the batches and what is still in the buffer are the magic,
  requests of the client's own and, in the order in which handlers have sent them, unaltered and
  once each, the commands sent through contexts, except the last ones, which still wait. None of
  these commands stays in the buffer. On a socket that takes what it is given nothing is cut off.
\<close>

theorem commands_reach_the_server_in_order:
  assumes "proper_start X H cl W addr p s" "history X H as s = Some s'"
  shows "\<exists>bs rest its. s_out (r_sock (y_run s')) = sent_bytes bs \<and>
    bm_data (w_buf (r_conn (y_run s'))) = items_bytes rest \<and> batch_items bs @ rest = Magic # its \<and>
    list_all (own_item X (cl_config cl) cl) its \<and>
    p_sent (y_pool s') = commands_of its @ conn_r (r_conn (y_run s')) @ p_cmds (y_pool s') \<and>
    commands_of rest = [] \<and>
    (s_wr (w_stream W addr) = [] \<longrightarrow> sent_bytes bs @ items_bytes rest = as_bytes VERSION @ items_bytes its)"
proof -
  obtain bs rest its where w: "s_out (r_sock (y_run s')) = sent_bytes bs"
    "bm_data (w_buf (r_conn (y_run s'))) = items_bytes rest" "batch_items bs @ rest = Magic # its"
    "list_all (own_item X (cl_config cl) cl) its"
    "p_sent (y_pool s') = commands_of its @ conn_r (r_conn (y_run s')) @ p_cmds (y_pool s')"
    "s_wr (w_stream W addr) = [] \<longrightarrow> list_all batch_whole bs" "commands_of rest = []"
    using always_written [OF assms] by (auto simp: written_def Let_def)
  have "sent_bytes bs @ items_bytes rest = as_bytes VERSION @ items_bytes its" if "s_wr (w_stream W addr) = []"
  proof -
    have "sent_bytes bs @ items_bytes rest = items_bytes (batch_items bs @ rest)"
      using whole_batches [of bs] w(6) that by simp
    then show ?thesis by (simp add: w(3))
  qed
  with w show ?thesis by blast
qed

theorem commands_reach_the_server_in_order_witness:
  "\<exists>(s :: unit system) s' its. history demo_ext example_handlers demo_history s = Some s' \<and>
     s_out (r_sock (y_run s')) = as_bytes VERSION @ items_bytes its \<and>
     commands_of its = [as_cmd (Fin demo_id)]"
proof -
  obtain s s' where s: "proper_start demo_ext example_handlers (demo_client ''t'' ''c'') demo_net 0 demo_pool s"
    "history demo_ext example_handlers demo_history s = Some s'"
    "p_sent (y_pool s') = [as_cmd (Fin demo_id)]" "p_cmds (y_pool s') = []"
    "conn_r (r_conn (y_run s')) = []" "bm_data (w_buf (r_conn (y_run s'))) = []"
    by (rule demo_run_history)
  have "s_wr (w_stream demo_net 0) = []" by (simp add: demo_net_def demo_world_def demo_sock_def)
  with commands_reach_the_server_in_order [OF s(1,2)] obtain bs rest its where
    "s_out (r_sock (y_run s')) = sent_bytes bs" "bm_data (w_buf (r_conn (y_run s'))) = items_bytes rest"
    "p_sent (y_pool s') = commands_of its @ conn_r (r_conn (y_run s')) @ p_cmds (y_pool s')"
    "sent_bytes bs @ items_bytes rest = as_bytes VERSION @ items_bytes its" by metis
  with s(3-6) have "s_out (r_sock (y_run s')) = as_bytes VERSION @ items_bytes its"
      "commands_of its = [as_cmd (Fin demo_id)]" by (simp_all only: append_Nil2)
  with s(2) show ?thesis by blast
qed

lemma start_serving:
  assumes "split_law X" "fresh_start X cl W addr p s" "history X H as s = Some s1"
    and "list_ex consumer (p_threads p)" "list_all (\<lambda>th. \<not> producer th) (p_threads p)"
    and "obedient H" "list_all (decodable X) (conn_s (r_conn (y_run s1)))"
  shows "serving X (y_pool s1)"
proof -
  have p: "y_pool s = p" "fresh p"
    using assms(2) by (auto simp: fresh_start_def system_start_def)
  then have "serving X (y_pool s)"
    using assms(4,5) fresh_close [OF p(2)]
    by (simp add: serving_def stop_inv_def) (simp add: fresh_def)
  with assms start_received [OF assms(2)] show ?thesis
    by (auto simp: fresh_start_def intro: history_serving)
qed

text \<open>Fair rounds of the threads, between two events of the loop.\<close>

lemma rounds_serve_all:
  assumes "received X D s" "serving X (y_pool s)" "obedient H"
    and "list_all (\<lambda>r. set [0..<length (p_threads (y_pool s))] \<subseteq> set r) rs"
    and "3 * length (conn_s (r_conn (y_run s))) + 3 \<le> length rs"
    and "q = schedule X H (map Run (concat rs)) (y_pool s)"
  shows "map Some (p_handled q) = map (as_msg X) (takeWhile content (conn_s (r_conn (y_run s)))) \<and>
    p_closed q = (if list_all content (conn_s (r_conn (y_run s))) then 0 else 1)"
proof (rule served_all)
  have taken: "p_taken (y_pool s) @ p_msgs (y_pool s) = conn_s (r_conn (y_run s))"
      and queue: "queue_inv X (y_pool s)"
    using assms(1) by (simp_all add: received_def Let_def)
  have quiet: "delivered_in (map Run is) = []" for "is" by (induction "is") (auto simp: delivered_in_def)
  have fair: "list_all (fair_round (length (p_threads (y_pool s)))) (map (map Run) rs)"
    using assms(4) quiet by (auto simp: list_all_iff fair_round_def)
  have rounds: "serving X q" "busy q \<Longrightarrow> work q + length rs \<le> work (y_pool s)"
    using rounds_work [OF assms(3,2) fair] by (simp_all add: assms(6) flip: map_concat)
  show "serving X q" by (rule rounds(1))
  show "queue_inv X q" unfolding assms(6) using queueing.inv_steps [OF schedule_steps queue] by simp
  show "p_taken q @ p_msgs q = conn_s (r_conn (y_run s))"
    using schedule_taken [of X H "map Run (concat rs)" "y_pool s"] taken quiet by (simp add: assms(6))
  have "length (p_msgs (y_pool s)) \<le> length (conn_s (r_conn (y_run s)))" by (simp flip: taken)
  then show "\<not> busy q" using rounds(2) work_bound [of "y_pool s"] assms(5) by fastforce
qed

text \<open>The rounds after a stop message leave the readers ended.\<close>

lemma rounds_end_readers:
  assumes "received X D s" "serving X (y_pool s)" "obedient H"
    and "list_all (\<lambda>r. set [0..<length (p_threads (y_pool s))] \<subseteq> set r) rs"
    and "conn_s (r_conn (y_run s)) = ms @ [BytesMsg 0 []]" "3 * length ms + 6 \<le> length rs"
    and "q = schedule X H (map Run (concat rs)) (y_pool s)"
  shows "ended (p_handled q) q" "map Some (p_handled q) = map (as_msg X) (takeWhile content ms)"
proof -
  have rounds: "map Some (p_handled q) = map (as_msg X) (takeWhile content (ms @ [BytesMsg 0 []]))"
      "p_closed q = 1"
    using rounds_serve_all [OF assms(1-4) _ assms(7)] assms(5,6) by simp_all
  have "close_inv (y_pool s)" by (rule servingD(2) [OF assms(2)])
  then have "close_inv q"
    unfolding assms(7) using closing.inv_steps [OF schedule_steps] by blast
  then show "ended (p_handled q) q" using rounds(2) by (auto simp: ended_def close_inv_def split: if_splits)
  have "takeWhile content (ms @ [BytesMsg 0 []]) = takeWhile content ms" by (rule takeWhile_tail) simp
  with rounds(1) show "map Some (p_handled q) = map (as_msg X) (takeWhile content ms)" by simp
qed

lemma asked_to_close:
  assumes "\<not> y_over s" "p_threads (y_pool s) ! j = MRecv" "j < length (p_threads (y_pool s))"
    and "r_close (y_run s) = []" "p_close (y_pool s) = []" "ev_token ev = CMD_TOKEN" "\<not> p_user_gone (y_pool s)"
  obtains s2 where "history X H [Ask m, Thread j, Event ev] s = Some s2" "y_over s2"
    "conn_s (r_conn (y_run s2)) = conn_s (r_conn (y_run s)) @ [BytesMsg 0 []]"
    "length (p_threads (y_pool s2)) = length (p_threads (y_pool s))"
proof -
  obtain p where p: "history X H [Ask m, Thread j] s = Some (s\<lparr>y_pool := p\<rparr>)" "p_close p = [1]"
      "p = schedule X H [UserCmd m, Run j] (y_pool s)"
    using ask_close [OF assms(2,3,5,7)] by blast
  obtain s2 where s2: "happen X H (Event ev) (s\<lparr>y_pool := p\<rparr>) = Some s2" "y_over s2"
      "conn_s (r_conn (y_run s2)) = conn_s (r_conn (y_run s)) @ [BytesMsg 0 []]"
      "y_pool s2 = p\<lparr>p_msgs := p_msgs p @ [BytesMsg 0 []], p_cmds := [], p_close := []\<rparr>"
    using close_request_ends [of "s\<lparr>y_pool := p\<rparr>" ev X H] assms(1,4,6) p(2) by auto
  have "history X H ([Ask m, Thread j] @ [Event ev]) s = Some s2"
    using p(1) s2(1) by (auto simp: bind_eq_Some_conv)
  then show ?thesis
    by (intro that [of s2]) (use s2 in \<open>simp_all add: p(3) threads_kept del: schedule_Cons\<close>)
qed

text \<open>
  C6: a close request ends the client. In a client with at least one consumer and no producer,
  started with empty channels, whose handlers never panic, take any time while \<open>run\<close> is
  polling, the closer thread waits and no request is pending, and let every message sent to the
  readers, unless empty, be decodable (26 bytes at least). When the user, who has kept its end of
  the channel, asks, the closer thread passes it on and the next event of its waker makes
  \<open>run\<close> return; and then, after three fair rounds of the threads for each message and
  six more, the consumers have handled every message delivered before (up to an earlier stop
  message), in order, and \<open>on_close\<close> has been called exactly once; and so it stays,
  whatever happens then.
\<close>

theorem user_close_ends_the_client:
  assumes "split_law X" "fresh_start X cl W addr p s" "history X H as s = Some s1" "\<not> y_over s1"
    and "list_ex consumer (p_threads p)" "list_all (\<lambda>th. \<not> producer th) (p_threads p)" "obedient H"
    and "ms = conn_s (r_conn (y_run s1))" "list_all (decodable X) ms"
    and "p_threads (y_pool s1) ! j = MRecv" "j < length (p_threads (y_pool s1))"
    and "r_close (y_run s1) = []" "p_close (y_pool s1) = []" "ev_token ev = CMD_TOKEN"
      "\<not> p_user_gone (y_pool s1)"
    and "list_all (\<lambda>r. set [0..<length (p_threads (y_pool s1))] \<subseteq> set r) rs" "3 * length ms + 6 \<le> length rs"
  shows "\<exists>s2. history X H ([Ask m, Thread j, Event ev] @ map Thread (concat rs)) s1 = Some s2 \<and>
    y_over s2 \<and> p_closed (y_pool s2) = 1 \<and>
    map Some (p_handled (y_pool s2)) = map (as_msg X) (takeWhile content ms) \<and>
    (\<forall>bs s3. history X H bs s2 = Some s3 \<longrightarrow>
       p_handled (y_pool s3) = p_handled (y_pool s2) \<and> p_closed (y_pool s3) = 1)"
proof -
  obtain s2 where s2: "history X H [Ask m, Thread j, Event ev] s1 = Some s2" "y_over s2"
      "conn_s (r_conn (y_run s2)) = ms @ [BytesMsg 0 []]"
      "length (p_threads (y_pool s2)) = length (p_threads (y_pool s1))"
    using asked_to_close [OF assms(4,10-15)] unfolding assms(8) by blast
  let ?q = "schedule X H (map Run (concat rs)) (y_pool s2)"
  have s: "history X H (as @ [Ask m, Thread j, Event ev]) s = Some s2"
    by (simp only: history_append assms(3) Option.bind.simps s2(1))
  have "serving X (y_pool s2)"
    by (rule start_serving [OF assms(1,2) s assms(5-7)]) (use s2(3) assms(9) in simp)
  note rounds = rounds_end_readers [OF always_received [OF assms(1,2) s] this assms(7) _ s2(3) assms(17) refl]
  have q: "ended (p_handled ?q) ?q" "map Some (p_handled ?q) = map (as_msg X) (takeWhile content ms)"
    using rounds assms(16) by (simp_all add: s2(4))
  have "history X H ([Ask m, Thread j, Event ev] @ map Thread (concat rs)) s1 = Some (s2\<lparr>y_pool := ?q\<rparr>)"
    by (simp only: history_append s2(1) Option.bind.simps history_threads)
  moreover have "p_handled (y_pool s3) = p_handled ?q \<and> p_closed (y_pool s3) = 1"
    if "history X H bs (s2\<lparr>y_pool := ?q\<rparr>) = Some s3" for bs s3
    using history_ended [OF _ that] q(1) by (auto simp: ended_def)
  ultimately show ?thesis
    using s2(2) q by (intro exI [of _ "s2\<lparr>y_pool := ?q\<rparr>"]) (simp add: ended_def)
qed

text \<open>The user closes while the message waits; the closer is thread 3.\<close>

theorem user_close_ends_the_client_witness:
  "\<exists>(s1 :: unit system) s2. conn_s (r_conn (y_run s1)) = [BytesMsg 0 (demo_bytes demo_id)] \<and>
     history demo_ext example_handlers ([Ask (Close), Thread 3, Event ((wr_ev 1)\<lparr>ev_token := CMD_TOKEN\<rparr>)] @
       map Thread (concat (replicate 9 [2, 1, 3, 0]))) s1 = Some s2 \<and>
     y_over s2 \<and> p_closed (y_pool s2) = 1 \<and> map msg_id (p_handled (y_pool s2)) = [demo_id]"
proof (rule demo_after_read)
  fix s :: "unit system" and st1
  let ?m = "BytesMsg 0 (demo_bytes demo_id)"
  let ?s1 = "s\<lparr>y_run := st1, y_pool := demo_pool\<lparr>p_msgs := [?m]\<rparr>, y_over := False\<rparr>"
  assume s: "proper_start demo_ext example_handlers (demo_client ''t'' ''c'') demo_net 0 demo_pool s"
    and e1: "happen demo_ext example_handlers (Event (rd_ev 1)) s = Some ?s1"
    and st1: "conn_s (r_conn st1) = [?m]" "r_close st1 = []"
  have h: "history demo_ext example_handlers [Event (rd_ev 1)] s = Some ?s1" using e1 by simp
  have pool: "p_threads demo_pool = [CLock (), CLock (), SRecv, MRecv]" "p_close demo_pool = []"
      "\<not> p_user_gone demo_pool"
    by (simp_all add: demo_pool_def spawn_def spawn_wakers_def pool_new_def numeral_2_eq_2)
  have "decode_msg demo_ext (demo_bytes demo_id) = Inr (5, 1, demo_id, [7])"
    by (rule demo_decode) (simp_all add: demo_id_def valid_str_def utf8_ranges_def)
  then have m: "as_msg demo_ext ?m = Some \<lparr>msg_timeout_ms = 0, msg_timestamp = 5, msg_attemps = 1,
      msg_id = demo_id, msg_body = [7]\<rparr>" by (simp add: as_msg_def)
  let ?ev = "(wr_ev 1)\<lparr>ev_token := CMD_TOKEN\<rparr>" and ?rs = "replicate 9 [2, 1, 3, 0 :: nat]"
  have threads: "list_ex consumer (p_threads demo_pool)" "list_all (\<lambda>th. \<not> producer th) (p_threads demo_pool)"
      "list_all (\<lambda>r. set [0..<length (p_threads (y_pool ?s1))] \<subseteq> set r) ?rs"
      "p_threads (y_pool ?s1) ! 3 = MRecv" "3 < length (p_threads (y_pool ?s1))"
    using pool by (auto simp: list_all_iff numeral_3_eq_3)
  have calm: "\<not> y_over ?s1" "[?m] = conn_s (r_conn (y_run ?s1))" "list_all (decodable demo_ext) [?m]"
      "r_close (y_run ?s1) = []" "p_close (y_pool ?s1) = []" "ev_token ?ev = CMD_TOKEN"
      "\<not> p_user_gone (y_pool ?s1)"
    using m st1 pool by simp_all
  have enough: "3 * length [?m] + 6 \<le> length ?rs" by simp
  obtain s2 where s2: "history demo_ext example_handlers
      ([Ask Close, Thread 3, Event ?ev] @ map Thread (concat ?rs)) ?s1 = Some s2"
      "y_over s2" "p_closed (y_pool s2) = 1"
      "map Some (p_handled (y_pool s2)) = map (as_msg demo_ext) (takeWhile content [?m])"
    using user_close_ends_the_client [OF demo_laws(2) proper_fresh [OF s] h calm(1) threads(1,2)
        examples_obedient calm(2,3) threads(4,5) calm(4-7) threads(3) enough]
    by blast
  from s2(4) m have "map msg_id (p_handled (y_pool s2)) = [demo_id]" by auto
  moreover have "conn_s (r_conn (y_run ?s1)) = [?m]" by (simp add: st1)
  ultimately show ?thesis by (intro exI [of _ ?s1] exI [of _ s2] conjI s2(1-3))
qed

end
