(* ===== verification/Run_Stream.thy ===== *)
theory Run_Stream
  imports System_Props
begin

text \<open>
  \<open>Client::run\<close> itself: every step it takes is a step of the system of \<open>System\<close> and the other
  way round (\<open>happen_loop_step\<close>, \<open>loop_step_happens\<close>), and of the stream it reads it loses and
  invents nothing (\<open>run_reads_the_stream\<close>).
\<close>

section \<open>The system takes the steps of \<open>run\<close>\<close>

lemma loop_step_event:
  "flow_run (loop_event X ev st) = Some st' \<Longrightarrow> loop_step X st st'"
  by (auto simp: loop_event_def intro: loop_step.plain loop_step.tls split: if_splits)

lemma happen_loop_step:
  "happen X H a s = Some s' \<Longrightarrow> y_run s' = y_run s \<or> loop_step X (y_run s) (y_run s')"
proof (cases a)
  case (Event ev)
  show "happen X H a s = Some s' \<Longrightarrow> ?thesis"
    unfolding Event by (erule happen_eventE) (auto dest: loop_step_event)
qed (auto simp: happen_def system_tick_def intro: loop_step.timer loop_step.enter split: if_splits)

lemma loop_step_happens:
  assumes "loop_step X st st'"
  shows "\<exists>a s s'. happen X H a s = Some s' \<and> y_run s = st \<and> y_run s' = st'"
proof -
  let ?s = "\<lambda>cs ks. \<lparr>y_run = st, y_pool = pool_new\<lparr>p_cmds := cs, p_close := ks\<rparr>, y_over = False\<rparr>"
  from assms consider ev where "flow_run (loop_event X ev st) = Some st'"
    | now where "r_tls st \<noteq> 1" "st' = check_heartbeat now st"
    | "r_tls st = 1" "st' = st\<lparr>r_interest := Readable\<rparr>"
    by (cases rule: loop_step.cases) (auto simp: loop_event_def)
  then show ?thesis
  proof cases
    case (1 ev)
    have "ev\<lparr>ev_cmds := ev_cmds ev, ev_close := ev_close ev\<rparr> = ev" by simp
    with 1 have "\<exists>s'. happen X H (Event ev) (?s (ev_cmds ev) (ev_close ev)) = Some s' \<and> y_run s' = st'"
      by (auto simp: happen_def system_event_def Let_def)
    moreover have "y_run (?s (ev_cmds ev) (ev_close ev)) = st" by simp
    ultimately show ?thesis by blast
  next
    case (2 now)
    then have "\<exists>s'. happen X H (Tick now) (?s [] []) = Some s' \<and> y_run s' = st'"
      by (simp add: happen_def system_tick_def)
    moreover have "y_run (?s [] []) = st" by simp
    ultimately show ?thesis by blast
  next
    case 3
    then have "\<exists>s'. happen X H EnterTls (?s [] []) = Some s' \<and> y_run s' = st'" by (simp add: happen_def)
    moreover have "y_run (?s [] []) = st" by simp
    ultimately show ?thesis by blast
  qed
qed

section \<open>What \<open>run\<close> has read\<close>

text \<open>
  \<open>D\<close> is what the server sends in all: frames that have been taken, whose messages have been
  handed to the readers, what is in the buffer, and what has not been read.
\<close>

definition read_so_far :: "ext \<Rightarrow> bytes \<Rightarrow> run \<Rightarrow> bool" where
  "read_so_far X D st \<longleftrightarrow> split_law X \<and> length D < 2 ^ 63 \<and>
     (\<exists>fs. D = concat (map enc_frame fs) @ r_buf (r_conn st) @ stream_bytes (r_sock st) \<and>
        map msg_bytes (contents (conn_s (r_conn st))) = with_content (payloads fs))"

definition about_to_read :: "ext \<Rightarrow> bytes \<Rightarrow> run \<Rightarrow> bool" where
  "about_to_read X D st \<longleftrightarrow> split_law X \<and> length D < 2 ^ 63 \<and> D = stream_bytes (r_sock st) \<and>
     r_buf (r_conn st) = [] \<and> conn_s (r_conn st) = []"

lemma read_so_far_inbound:
  assumes "read_so_far X D st" "inbound fs st1 st'"
    and "r_buf (r_conn st1) = r_buf (r_conn st)" "r_sock st1 = r_sock st"
      "conn_s (r_conn st1) = conn_s (r_conn st)"
  shows "read_so_far X D st'"
proof -
  from assms(1) obtain fs0 where f: "split_law X" "length D < 2 ^ 63"
      "D = concat (map enc_frame fs0) @ r_buf (r_conn st) @ stream_bytes (r_sock st)"
      "map msg_bytes (contents (conn_s (r_conn st))) = with_content (payloads fs0)"
    by (auto simp: read_so_far_def)
  from assms(2) obtain ms where
    "r_buf (r_conn st) @ stream_bytes (r_sock st) =
      concat (map enc_frame fs) @ r_buf (r_conn st') @ stream_bytes (r_sock st')"
    "conn_s (r_conn st') = conn_s (r_conn st) @ ms"
    "map msg_bytes (contents ms) = with_content (payloads fs)"
    by (auto simp: inbound_def assms(3-5))
  with f show ?thesis
    unfolding read_so_far_def
    by (intro conjI exI [of _ "fs0 @ fs"]) (simp_all add: payloads_def)
qed

lemma loop_step_reads:
  assumes "loop_step X st st'" "read_so_far X D st"
  shows "read_so_far X D st'"
proof -
  have event: "read_so_far X D st'" if "flow_run (loop_event X ev st) = Some st'" for ev
  proof -
    have "split_law X" "small_input st" using assms(2) by (auto simp: read_so_far_def small_input_def)
    from loop_event_inbound [OF that this] obtain fs where "inbound fs (arrive ev st) st'" by blast
    then show ?thesis by (rule read_so_far_inbound [OF assms(2)]) (simp_all add: arrive_def)
  qed
  from assms(1) show ?thesis
  proof cases
    case (plain ev)
    then show ?thesis by (auto intro: event simp: loop_event_def)
  next
    case (timer now)
    then show ?thesis using read_so_far_inbound [OF assms(2) check_heartbeat_traffic(1)] by simp
  next
    case enter
    then show ?thesis using assms(2) by (simp add: read_so_far_def)
  next
    case (tls ev)
    then show ?thesis by (auto intro: event simp: loop_event_def)
  qed
qed

interpretation intake: invariant_system "about_to_read X D" "loop_step X" "read_so_far X D" for X D
proof unfold_locales
  show "read_so_far X D st" if "about_to_read X D st" for st
    using that unfolding about_to_read_def read_so_far_def
    by (intro conjI exI [of _ "[] :: frame list"]) (auto simp: payloads_def contents_def)
  show "read_so_far X D st'" if "read_so_far X D st" "loop_step X st st'" for st st'
    by (rule loop_step_reads [OF that(2,1)])
qed

lemma client_run_starts:
  assumes "flow_run (client_run X cl W polls) = Some st"
    and "fst (connect (w_lookup W) (w_net W) (w_backoff W)) = Stream a"
  obtains c where "magic X (conn_new X (cl_config cl) (cl_cmd_channel cl) (cl_msg_channel cl) []
      (cl_msg_timeout cl)) = Inr c" "(loop_step X)\<^sup>*\<^sup>* (run_start cl W c a) st"
  using assms
  by (auto simp: client_run_def flow_run_flow_of Let_def dest!: run_loop_steps split: if_splits)

text \<open>
  C9: \<open>run\<close> neither loses nor invents anything it reads. Whatever the server sends on the stream
  of the address \<open>run\<close> connects to, however it is cut into reads, over the plain socket or over
  TLS, and whatever events and commands arrive: at the end of any number of polls the stream is
  a sequence of whole frames followed by what is in the read buffer and what has not been read,
  and the messages handed to the readers are exactly the non-empty payloads of the MESSAGE
  frames among these, in order.
\<close>

theorem run_reads_the_stream:
  assumes "split_law X" "flow_run (client_run X cl W polls) = Some st"
    and "fst (connect (w_lookup W) (w_net W) (w_backoff W)) = Stream a"
    and "cl_msg_channel cl = []" "length (stream_bytes (w_stream W a)) < 2 ^ 63"
  shows "\<exists>fs. stream_bytes (w_stream W a) =
      concat (map enc_frame fs) @ r_buf (r_conn st) @ stream_bytes (r_sock st) \<and>
    map msg_bytes (contents (conn_s (r_conn st))) = with_content (payloads fs)"
proof -
  obtain c where c: "magic X (conn_new X (cl_config cl) (cl_cmd_channel cl) (cl_msg_channel cl) []
      (cl_msg_timeout cl)) = Inr c" "(loop_step X)\<^sup>*\<^sup>* (run_start cl W c a) st"
    by (rule client_run_starts [OF assms(2,3)])
  have "about_to_read X (stream_bytes (w_stream W a)) (run_start cl W c a)"
    using c(1) assms(1,4,5) by (auto simp: about_to_read_def run_start_def magic_def conn_new_def)
  from intake.inv_reachable [OF this c(2)] show ?thesis by (auto simp: read_so_far_def)
qed

text \<open>The answer to IDENTIFY and a message, in one read.\<close>

theorem run_reads_the_stream_witness:
  "\<exists>st fs. client_run demo_ext (demo_client ''t'' ''c'') demo_net [PollOk 1 [rd_ev 1]] = Continue st \<and>
     demo_stream = concat (map enc_frame fs) @ r_buf (r_conn st) \<and>
     with_content (payloads fs) = [demo_bytes demo_id]"
proof -
  let ?cl = "demo_client ''t'' ''c''"
  let ?new = "conn_new demo_ext (cl_config ?cl) (cl_cmd_channel ?cl) (cl_msg_channel ?cl) [] (cl_msg_timeout ?cl)"
  have net: "fst (connect (w_lookup demo_net) (w_net demo_net) (w_backoff demo_net)) = Stream 0"
      "w_poll_ok demo_net" "w_register_ok demo_net" "stream_bytes (w_stream demo_net 0) = demo_stream"
      "cl_msg_channel ?cl = []" "length demo_stream < 2 ^ 63"
    by (simp_all add: demo_net_def demo_world_def demo_sock_def stream_bytes_def demo_client_def client_new_def
        demo_stream_def enc_frame_def demo_length)
  obtain s :: "unit system" and b where s: "proper_start demo_ext example_handlers ?cl demo_net 0 demo_pool s"
      "y_run s = run_start ?cl demo_net (demo_conn\<lparr>w_buf := b, conn_state := SIdentify\<rparr>) 0"
    by (rule demo_proper)
  let ?c = "demo_conn\<lparr>w_buf := b, conn_state := SIdentify\<rparr>"
  obtain st where st: "plain_event demo_ext (rd_ev 1) (run_start ?cl demo_net ?c 0) = Continue st" "r_tls st = 0"
      "r_sock st = (r_sock (run_start ?cl demo_net ?c 0))\<lparr>s_in := []\<rparr>"
      "conn_s (r_conn st) = [BytesMsg 0 (demo_bytes demo_id)]"
    using demo_answer_read [OF refl refl, of b] unfolding demo_id_def by blast
  obtain c where c: "magic demo_ext ?new = Inr c" "run_start ?cl demo_net c 0 = run_start ?cl demo_net ?c 0"
    using s by (auto simp: proper_start_def fresh_start_def system_start_def)
  have "check_heartbeat 1 (run_start ?cl demo_net c 0) = run_start ?cl demo_net c 0"
    by (simp add: check_heartbeat_def HEARTBEAT_TIMEOUT_def)
  then have "run_loop demo_ext demo_net [PollOk 1 [rd_ev 1]] (run_start ?cl demo_net c 0) = Continue st"
    using st(1,2) unfolding c(2) by (simp add: plain_round_def) (simp add: run_start_def)
  then have run: "client_run demo_ext ?cl demo_net [PollOk 1 [rd_ev 1]] = Continue st"
    using net(1-3) c(1) by (simp add: client_run_def Let_def)
  obtain fs where "demo_stream = concat (map enc_frame fs) @ r_buf (r_conn st) @ stream_bytes (r_sock st)"
      "map msg_bytes (contents (conn_s (r_conn st))) = with_content (payloads fs)"
    using run_reads_the_stream [OF demo_laws(2), of ?cl demo_net "[PollOk 1 [rd_ev 1]]" st 0] run net
    by auto
  with st(3,4) run show ?thesis
    by (intro exI [of _ st] exI [of _ fs]) (simp add: stream_bytes_def contents_def)
qed

end
