(* ===== verification/System_Flush.thy ===== *)
theory System_Flush
  imports System_Props
begin

text \<open>
  The way out of the client, as progress: an event of the waker ends without a panic and leaves
  no command behind (\<open>waker_event_sends_everything\<close>), at any time in the life of a client, also
  before the handshake is over. It needs that the write buffer is well formed whenever an event
  begins (\<open>history_buffer\<close>).
\<close>

section \<open>The write buffer over the life of the client\<close>

abbreviation buffer :: "run \<Rightarrow> bytes_mut" where
  "buffer st \<equiv> w_buf (r_conn st)"

lemma handshake_wf:
  assumes "reserve_keeps X" "bm_wf (w_buf c)"
  shows "identify X c = Inr c' \<Longrightarrow> bm_wf (w_buf c')" "auth X s c = Inr c' \<Longrightarrow> bm_wf (w_buf c')"
    "subscribe X t ch c = Inr c' \<Longrightarrow> bm_wf (w_buf c')" "conn_rdy X r c = Inr c' \<Longrightarrow> bm_wf (w_buf c')"
  by (auto simp: identify_def auth_def subscribe_def conn_rdy_def split: option.splits
      elim: conn_write_cmd_wf [OF assms(1) _ assms(2)])

lemma request_wf:
  assumes "flow_run (plain_request X st) = Some st' \<or> flow_run (tls_request X st) = Some st'"
    and "reserve_keeps X" "bm_wf (buffer st)"
  shows "bm_wf (buffer st')"
  using assms(1) handshake_wf [OF assms(2,3)] assms(3)
  by (auto simp: plain_request_def tls_request_def flow_run_flow_of send_request_def write_tcp_eq
      split: state.splits option.splits if_splits)

lemma flush_wf:
  assumes "flush_commands X ev st = Inr st'" "reserve_keeps X" "bm_wf (buffer st)"
  shows "bm_wf (buffer st')"
  using assms(1,3)
  by (auto simp: flush_commands_def write_messages_def dest!: write_message_loop_wf [OF assms(2)])

lemma heartbeat_wf:
  assumes "answer_heartbeat X ev st = Inr st'" "reserve_keeps X" "bm_wf (buffer st)"
  shows "bm_wf (buffer st')"
  using assms(1,3)
  by (auto simp: answer_heartbeat_def write_tcp_eq heartbeat_done_def split: if_splits
      elim: conn_write_cmd_wf [OF assms(2)])

lemma loop_event_wf:
  assumes "flow_run (loop_event X ev st) = Some st'" "reserve_keeps X" "bm_wf (buffer st)"
  shows "bm_wf (buffer st')"
proof -
  have wf: "bm_wf (buffer (arrive ev st))" using assms(3) by (simp add: arrive_def)
  from assms(1) show ?thesis
  proof (cases rule: loop_event_cases)
    case close
    with wf show ?thesis
      by (cases "r_close (arrive ev st)")
        (auto simp: plain_close_def tls_close_def send_close_msg_def split: if_splits)
  next
    case (read io c sk)
    with wf read_tcp_writes_nothing [OF read(1)] show ?thesis by (simp add: silent_def)
  next
    case request
    then show ?thesis by (rule request_wf [OF _ assms(2) wf])
  next
    case (started st1)
    then show ?thesis using assms(2) wf by (auto dest!: heartbeat_wf flush_wf)
  next
    case flush
    then show ?thesis by (rule flush_wf [OF _ assms(2) wf])
  qed
qed

lemma happen_buffer:
  assumes "reserve_keeps X" "bm_wf (buffer (y_run s))" "happen X H a s = Some s'"
  shows "bm_wf (buffer (y_run s'))"
proof (cases a)
  case (Event ev)
  with assms(3) show ?thesis
    by (auto elim!: happen_eventE intro: loop_event_wf [OF _ assms(1,2)])
next
  case (Tick now)
  with assms(2,3) show ?thesis
    by (auto simp: happen_def system_tick_def check_heartbeat_def send_close_msg_def split: if_splits)
qed (use assms(2,3) in \<open>auto simp: happen_def split: if_splits\<close>)

lemma history_buffer:
  assumes "reserve_keeps X" "fresh_start X cl W addr p s" "history X H as s = Some s'"
  shows "bm_wf (buffer (y_run s'))"
proof -
  obtain b where b: "write_magic X VERSION (bm_new X) = Inr b" "buffer (y_run s) = b"
    using assms(2)
    by (auto simp: fresh_start_def system_start_def magic_def run_start_def) (simp add: conn_new_def)
  then have "bm_wf (buffer (y_run s))" using writers_wf(1) [OF assms(1) b(1)] by simp
  with happen_buffer [OF assms(1)] show ?thesis
    by (rule history_inv [of "\<lambda>s. bm_wf (buffer (y_run s))", OF _ _ assms(3)])
qed

section \<open>An event of the waker\<close>

abbreviation waiting :: "'h system \<Rightarrow> cmd list" where
  "waiting s \<equiv> conn_r (r_conn (y_run s)) @ p_cmds (y_pool s)"

text \<open>Room for the waiting commands: in the counters, and in the address space.\<close>

definition room_for_waiting :: "ext \<Rightarrow> 'h system \<Rightarrow> bool" where
  "room_for_waiting X s \<longleftrightarrow> counters_ok X (length (waiting s)) (r_conn (y_run s)) \<and>
     length (bm_data (buffer (y_run s))) +
       length (concat (map (\<lambda>m. wire_cmd (RawCmd m)) (waiting s))) < 2 ^ 63"

lemma waker_event_runs:
  assumes "reserve_law X" "bm_wf (buffer (y_run s))" "fitting (waiting s)" "room_for_waiting X s"
    and "\<not> y_over s" "ev_token ev \<noteq> CMD_TOKEN" "ev_token ev \<noteq> CONNECTION"
  obtains s' where "happen X H (Event ev) s = Some s'" "waiting s' = []"
    "p_sent (y_pool s') = p_sent (y_pool s)"
proof -
  let ?ev = "ev\<lparr>ev_cmds := p_cmds (y_pool s), ev_close := p_close (y_pool s)\<rparr>"
  let ?st = "arrive ?ev (y_run s)"
  have "\<exists>c sk. write_message_loop X (ev_clock ?ev) (waiting s) ((r_conn ?st)\<lparr>conn_r := []\<rparr>) (r_sock ?st) =
      Inr (c, sk) \<and> (waiting s = [] \<or> bm_data (w_buf c) = [])"
    using assms(2-4)
    by (intro write_message_loop_total [OF assms(1)])
      (simp_all add: arrive_def room_for_waiting_def counters_ok_def)
  then obtain c sk where c: "write_message_loop X (ev_clock ?ev) (waiting s)
      ((r_conn ?st)\<lparr>conn_r := []\<rparr>) (r_sock ?st) = Inr (c, sk)" "waiting s = [] \<or> bm_data (w_buf c) = []"
    by blast
  then have f: "flush_commands X ?ev ?st = Inr (?st\<lparr>r_conn := c, r_sock := sk\<rparr>)"
    by (simp add: flush_commands_def write_messages_def arrive_def)
  have "conn_r c = []" using write_message_loop_keeps [OF c(1)] by simp
  moreover have "loop_event X ?ev (y_run s) = Continue (?st\<lparr>r_conn := c, r_sock := sk\<rparr>)"
    using assms(6,7) f by (simp add: loop_event_def plain_event_def tls_event_def Let_def)
  ultimately show ?thesis
    using assms(5) c(2)
    by (intro that [of "s\<lparr>y_run := ?st\<lparr>r_conn := c, r_sock := sk\<rparr>, y_pool := hand_over (y_run s)
        (?st\<lparr>r_conn := c, r_sock := sk\<rparr>) ((y_pool s)\<lparr>p_cmds := [], p_close := []\<rparr>), y_over := False\<rparr>"])
      (simp_all add: happen_def system_event_def Let_def, simp_all add: hand_over_def)
qed

lemma waker_event_flushes:
  assumes "reserve_law X" "reserve_keeps X" "proper_start X H cl W addr p s"
    and "history X H as s = Some s1" "\<not> y_over s1" "room_for_waiting X s1" "ev_token ev = CLIENT_TOKEN"
  shows "\<exists>s2 bs rest its. happen X H (Event ev) s1 = Some s2 \<and> waiting s2 = [] \<and>
    s_out (r_sock (y_run s2)) = sent_bytes bs \<and> bm_data (buffer (y_run s2)) = items_bytes rest \<and>
    batch_items bs @ rest = Magic # its \<and> list_all (own_item X (cl_config cl) cl) its \<and>
    commands_of (batch_items bs) = p_sent (y_pool s1) \<and> p_sent (y_pool s2) = p_sent (y_pool s1) \<and>
    (s_wr (w_stream W addr) = [] \<longrightarrow> sent_bytes bs = items_bytes (batch_items bs))"
proof -
  let ?acc = "s_wr (w_stream W addr) = []"
  have "written X (cl_config cl) cl ?acc s1" by (rule always_written [OF assms(3,4)])
  then have "fitting (waiting s1)" by (auto simp: written_def Let_def)
  moreover have "bm_wf (buffer (y_run s1))"
    by (rule history_buffer [OF assms(2) proper_fresh [OF assms(3)] assms(4)])
  ultimately obtain s2 where s2: "happen X H (Event ev) s1 = Some s2" "waiting s2 = []"
      "p_sent (y_pool s2) = p_sent (y_pool s1)"
    using assms(5-7) by (auto simp: token_defs elim: waker_event_runs [OF assms(1), of s1 ev H])
  from assms(4) s2(1) have "history X H (as @ [Event ev]) s = Some s2" by (simp add: history_append)
  then have "written X (cl_config cl) cl ?acc s2" by (rule always_written [OF assms(3)])
  then obtain bs rest its where w: "s_out (r_sock (y_run s2)) = sent_bytes bs"
      "bm_data (buffer (y_run s2)) = items_bytes rest" "batch_items bs @ rest = Magic # its"
      "list_all (own_item X (cl_config cl) cl) its" "p_sent (y_pool s1) = commands_of its"
      "?acc \<longrightarrow> list_all batch_whole bs" "commands_of rest = []"
    using s2(2,3) by (auto elim!: writtenE)
  have "commands_of (batch_items bs) = p_sent (y_pool s1)"
    using arg_cong [OF w(3), of commands_of] w(5,7) by simp
  moreover have "?acc \<longrightarrow> sent_bytes bs = items_bytes (batch_items bs)"
    using w(6) whole_batches [of bs] by simp
  ultimately show ?thesis using s2 w(1-4) by metis
qed

text \<open>
  C5: an event of the waker sends everything. At any time while \<open>run\<close> is polling, whatever has
  happened before and whatever the socket does, the event is handled without a panic, and then
  every command that has been sent through a context has been given to the socket, in the order
  of sending and once each, in batches of whole commands; on a socket that takes what it is
  given, all of them are on the wire. The counters must have room for the waiting commands, or
  the build must not check them.
\<close>

theorem waker_event_sends_everything:
  assumes "reserve_law X" "reserve_keeps X" "proper_start X H cl W addr p s"
    and "history X H as s = Some s1" "\<not> y_over s1" "room_for_waiting X s1" "ev_token ev = CLIENT_TOKEN"
  shows "\<exists>s2 bs rest its. happen X H (Event ev) s1 = Some s2 \<and> waiting s2 = [] \<and>
    s_out (r_sock (y_run s2)) = sent_bytes bs \<and> bm_data (buffer (y_run s2)) = items_bytes rest \<and>
    batch_items bs @ rest = Magic # its \<and> list_all (own_item X (cl_config cl) cl) its \<and>
    commands_of (batch_items bs) = p_sent (y_pool s1) \<and> p_sent (y_pool s2) = p_sent (y_pool s1) \<and>
    (s_wr (w_stream W addr) = [] \<longrightarrow> sent_bytes bs = items_bytes (batch_items bs))"
  using assms by (rule waker_event_flushes)

theorem waker_event_sends_everything_witness:
  "\<exists>(s1 :: unit system) s2 its. waiting s1 = [as_cmd (Fin demo_id)] \<and>
     happen demo_ext example_handlers (Event waker_ev) s1 = Some s2 \<and> waiting s2 = [] \<and>
     s_out (r_sock (y_run s2)) = items_bytes its \<and> commands_of its = [as_cmd (Fin demo_id)]"
proof (rule demo_finished)
  fix s s1 :: "unit system"
  assume s: "proper_start demo_ext example_handlers (demo_client ''t'' ''c'') demo_net 0 demo_pool s"
    and s1: "history demo_ext example_handlers (Event (rd_ev 1) # map Thread [0, 0, 0]) s = Some s1"
    and at: "\<not> y_over s1" "conn_r (r_conn (y_run s1)) = []" "p_cmds (y_pool s1) = [as_cmd (Fin demo_id)]"
      "p_sent (y_pool s1) = [as_cmd (Fin demo_id)]" "bm_data (w_buf (r_conn (y_run s1))) = as_bytes VERSION"
      "in_flight (r_conn (y_run s1)) = 1" "processed (r_conn (y_run s1)) = 0"
  have fin: "length (wire_cmd (RawCmd (as_cmd (Fin demo_id)))) = 21"
    by (simp add: wire_cmd_def wire_line_def demo_id_def)
  have "room_for_waiting demo_ext s1"
    using at(2,3,5-7) fin by (simp add: room_for_waiting_def counters_ok_def VERSION_def)
  moreover have "ev_token waker_ev = CLIENT_TOKEN" by (simp add: waker_ev_def)
  ultimately obtain s2 bs where "happen demo_ext example_handlers (Event waker_ev) s1 = Some s2"
      "waiting s2 = []" "s_out (r_sock (y_run s2)) = sent_bytes bs"
      "commands_of (batch_items bs) = p_sent (y_pool s1)"
      "s_wr (w_stream demo_net 0) = [] \<longrightarrow> sent_bytes bs = items_bytes (batch_items bs)"
    using waker_event_sends_everything [OF demo_laws(1) demo_reserve_keeps s s1 at(1)] by metis
  moreover have "s_wr (w_stream demo_net 0) = []" by (simp add: demo_net_def demo_world_def demo_sock_def)
  ultimately show ?thesis
    using at(2-4) by (intro exI [of _ s1] exI [of _ s2] exI [of _ "batch_items bs"]) simp
qed

end
