(* ===== verification/Counters.thy ===== *)
theory Counters
  imports System_Flush
begin

text \<open>
  The two counters of the connection over the life of a client. \<open>booked\<close> and \<open>tallied\<close> relate
  them to the messages the readers have been sent and to the commands that have been sent
  through contexts; so they never leave their range when handlers send at most one command for
  a message (\<open>counters_stay_in_range\<close>).
\<close>

section \<open>What one event does to the counters\<close>

text \<open>Operations that change neither the counters nor the queues they count.\<close>

definition keeps_counts :: "conn \<Rightarrow> conn \<Rightarrow> bool" where
  "keeps_counts c c' \<longleftrightarrow> in_flight c' = in_flight c \<and> processed c' = processed c \<and>
     conn_s c' = conn_s c \<and> conn_r c' = conn_r c"

lemma keeps_counts_refl [simp]: "keeps_counts c c"
  by (simp add: keeps_counts_def)

lemma keeps_counts_fields [simp]:
  "keeps_counts c (c'\<lparr>w_buf := b\<rparr>) = keeps_counts c c'"
  "keeps_counts c (c'\<lparr>conn_state := s\<rparr>) = keeps_counts c c'"
  "keeps_counts c (c'\<lparr>heartbeat := h\<rparr>) = keeps_counts c c'"
  "keeps_counts c (c'\<lparr>need_response := h\<rparr>) = keeps_counts c c'"
  by (simp_all add: keeps_counts_def)

lemma conn_write_cmd_counts: "conn_write_cmd X a c = Inr c' \<Longrightarrow> keeps_counts c c'"
  by (auto simp: conn_write_cmd_eq)

lemma handshake_counts:
  "identify X c = Inr c' \<Longrightarrow> keeps_counts c c'" "auth X s c = Inr c' \<Longrightarrow> keeps_counts c c'"
  "subscribe X t ch c = Inr c' \<Longrightarrow> keeps_counts c c'" "conn_rdy X r c = Inr c' \<Longrightarrow> keeps_counts c c'"
  by (auto simp: identify_def auth_def subscribe_def conn_rdy_def conn_write_cmd_counts
      split: option.splits)

lemma request_counts:
  assumes "flow_run (plain_request X st) = Some st' \<or> flow_run (tls_request X st) = Some st'"
  shows "keeps_counts (r_conn st) (r_conn st')"
  using assms handshake_counts
  by (auto simp: plain_request_def tls_request_def flow_run_flow_of send_request_def write_tcp_eq
      split: state.splits option.splits if_splits)

lemma heartbeat_counts:
  "answer_heartbeat X ev st = Inr st' \<Longrightarrow> keeps_counts (r_conn st) (r_conn st')"
  by (auto simp: answer_heartbeat_def write_tcp_eq heartbeat_done_def conn_write_cmd_counts
      split: if_splits)

text \<open>The commands written and those waiting, counted at the width of the counter.\<close>

definition counted :: "conn \<Rightarrow> u32" where
  "counted c = processed c + word_of_nat (length (conn_r c))"

lemma keeps_countsD:
  assumes "keeps_counts c c'"
  shows "counted c' = counted c" "uncounted c' = uncounted c"
  using assms by (simp_all add: keeps_counts_def counted_def uncounted_def)

lemma read_tcp_processed:
  assumes "read_tcp X c sk = Inr (io, c', sk')"
  shows "processed c' = processed c"
proof -
  have step: "processed e = processed d" if "decode_step X sz d = Inr (Some e)" for sz d e
    using that by (auto simp: decode_step_def handle_frame_def Let_def split: if_splits)
  have "processed d = processed c" if "decode X sz (c\<lparr>r_buf := b\<rparr>) = Inr d" for sz b d
    using dec.loop_result [of "\<lambda>d. processed d = processed c", OF _ _ that] step by simp
  with assms show ?thesis by (auto simp: read_tcp_def split: prod.splits sum.splits if_splits)
qed

lemma write_message_loop_processed:
  "write_message_loop X clock ms c sk = Inr (c', sk') \<Longrightarrow>
     processed c' = processed c + word_of_nat (length ms)"
proof (induction ms arbitrary: c sk clock)
  case (Cons m ms)
  then obtain c1 sk1 fl where c1: "conn_write_cmd X (RawCmd m) c = Inr c1" and
      rec: "write_message_loop X (\<lambda>i. clock (Suc i)) ms
        (c1\<lparr>w_buf := bm_clear (w_buf c1), last_time_sent := clock 0,
           in_flight := fl, processed := processed c1 + 1\<rparr>) sk1 = Inr (c', sk')"
    by (auto simp: write_tcp_eq dest!: add_u32_Inr)
  have "processed c1 = processed c" using c1 by (auto simp: conn_write_cmd_eq)
  with Cons.IH [OF rec] show ?case by simp
qed simp

lemma flush_counts:
  assumes "flush_commands X ev st = Inr st'"
  shows "counted (r_conn st') = counted (r_conn st)" "uncounted (r_conn st') = uncounted (r_conn st)"
proof -
  from assms obtain c sk where c: "st' = st\<lparr>r_conn := c, r_sock := sk\<rparr>"
      "write_message_loop X (ev_clock ev) (conn_r (r_conn st)) ((r_conn st)\<lparr>conn_r := []\<rparr>) (r_sock st)
        = Inr (c, sk)"
    by (auto simp: flush_commands_def write_messages_def)
  with write_message_loop_keeps [OF c(2)] write_message_loop_processed [OF c(2)]
    write_message_loop_uncounted [OF c(2)]
  show "counted (r_conn st') = counted (r_conn st)" "uncounted (r_conn st') = uncounted (r_conn st)"
    by (simp_all add: counted_def)
qed

lemma close_shape:
  assumes "flow_run (plain_close st) = Some st' \<or> flow_run (tls_close st) = Some st'"
  obtains "st' = st" | r where "st' = st\<lparr>r_close := r\<rparr>"
    | r where "st' = send_close_msg (st\<lparr>r_close := r, r_shutdown := True\<rparr>)"
    | r where "st' = send_close_msg (st\<lparr>r_close := r, r_tls_shutdown := True\<rparr>)"
  using assms
  by (cases "r_close st") (auto simp: plain_close_def tls_close_def split: if_splits intro: that)

text \<open>Only the loop's own stop message is sent without being counted.\<close>

definition counts_kept :: "conn \<Rightarrow> conn \<Rightarrow> bool" where
  "counts_kept c c' \<longleftrightarrow> uncounted c' = uncounted c \<or>
     uncounted c' = uncounted c + 1 \<and> conn_s c' = conn_s c @ [BytesMsg 0 []]"

lemma stop_counts: "counts_kept c (c\<lparr>conn_s := conn_s c @ [BytesMsg 0 []]\<rparr>)"
  by (simp add: counts_kept_def uncounted_def)

lemma close_counts:
  assumes "flow_run (plain_close st) = Some st' \<or> flow_run (tls_close st) = Some st'"
  shows "counted (r_conn st') = counted (r_conn st)" "counts_kept (r_conn st) (r_conn st')"
proof -
  show "counted (r_conn st') = counted (r_conn st)"
    using assms by (rule close_shape) (simp_all add: send_close_msg_def counted_def)
  show "counts_kept (r_conn st) (r_conn st')"
    using assms
    by (rule close_shape) (simp_all add: send_close_msg_def ch_send_def stop_counts, simp_all add: counts_kept_def)
qed

lemma loop_event_counts:
  assumes "flow_run (loop_event X ev st) = Some st'"
  shows "counted (r_conn st') = counted (r_conn (arrive ev st))" "counts_kept (r_conn st) (r_conn st')"
proof -
  let ?st = "arrive ev st"
  have start: "uncounted (r_conn ?st) = uncounted (r_conn st)" "conn_s (r_conn ?st) = conn_s (r_conn st)"
    by (simp_all add: arrive_def)
  have "counted (r_conn st') = counted (r_conn ?st) \<and> counts_kept (r_conn ?st) (r_conn st')"
    using assms
  proof (cases rule: loop_event_cases)
    case close
    with close_counts [OF this] show ?thesis by blast
  next
    case (read io c sk)
    then have "counted (r_conn st') = counted c" "uncounted (r_conn st') = uncounted c"
      by (simp_all add: silent_def counted_def uncounted_def)
    moreover have "counted c = counted (r_conn ?st)"
      using read_tcp_processed [OF read(1)] read_tcp_writes_nothing [OF read(1)] by (simp add: counted_def)
    ultimately show ?thesis using read_tcp_uncounted [OF read(1)] by (simp add: counts_kept_def)
  next
    case request
    from keeps_countsD [OF request_counts [OF this]] show ?thesis by (simp add: counts_kept_def)
  next
    case (started st1)
    then obtain st2 where st2: "answer_heartbeat X ev ?st = Inr st2" "flush_commands X ev st2 = Inr st1"
      by auto
    from keeps_countsD [OF heartbeat_counts [OF st2(1)]] flush_counts [OF st2(2)] show ?thesis
      by (simp add: started(2) counts_kept_def)
  next
    case flush
    with flush_counts [OF flush] show ?thesis by (simp add: counts_kept_def)
  qed
  with start show "counted (r_conn st') = counted (r_conn ?st)" "counts_kept (r_conn st) (r_conn st')"
    by (simp_all add: counts_kept_def)
qed

section \<open>The counters over the life of the client\<close>

text \<open>
  The commands counted as processed and those that wait are those that have been sent through
  contexts; and the two counters add up to the messages sent to the readers, without stop
  messages of the loop's own.
\<close>

definition tallied :: "'h system \<Rightarrow> bool" where
  "tallied s \<longleftrightarrow>
     processed (r_conn (y_run s)) + word_of_nat (length (waiting s)) = word_of_nat (length (p_sent (y_pool s)))"

abbreviation stops :: "bytes_msg list \<Rightarrow> nat" where
  "stops ms \<equiv> length (filter (\<lambda>m. \<not> content m) ms)"

definition booked :: "'h system \<Rightarrow> bool" where
  "booked s \<longleftrightarrow> (let c = r_conn (y_run s) in
     \<exists>k \<le> stops (conn_s c). uncounted c = word_of_nat k)"

lemma booked_kept:
  assumes "booked s" "counts_kept (r_conn (y_run s)) (r_conn (y_run s'))"
    and "\<exists>ms. conn_s (r_conn (y_run s')) = conn_s (r_conn (y_run s)) @ ms"
  shows "booked s'"
proof -
  let ?c = "r_conn (y_run s)" and ?c' = "r_conn (y_run s')"
  from assms(1) obtain k where k: "k \<le> stops (conn_s ?c)" "uncounted ?c = word_of_nat k"
    by (auto simp: booked_def Let_def)
  from assms(2) consider "uncounted ?c' = uncounted ?c"
    | "uncounted ?c' = uncounted ?c + 1" "conn_s ?c' = conn_s ?c @ [BytesMsg 0 []]"
    by (auto simp: counts_kept_def)
  then show ?thesis
  proof cases
    case 1
    with k assms(3) show ?thesis
      unfolding booked_def Let_def by (intro exI [of _ k]) auto
  next
    case 2
    with k show ?thesis unfolding booked_def Let_def by (intro exI [of _ "Suc k"]) simp
  qed
qed

lemma happen_tallied:
  assumes "tallied s" "happen X H a s = Some s'"
  shows "tallied s'"
proof (cases a)
  case (Thread i)
  obtain new where "p_sent (run_thread X H i (y_pool s)) = p_sent (y_pool s) @ new"
      "p_cmds (run_thread X H i (y_pool s)) = p_cmds (y_pool s) @ new"
    using run_thread_cmds by blast
  with assms show ?thesis by (auto simp: Thread happen_def act_def tallied_def algebra_simps)
next
  case (Ask m)
  with assms show ?thesis by (auto simp: happen_def act_def tallied_def)
next
  case Leave
  with assms show ?thesis by (auto simp: happen_def act_def tallied_def)
next
  case (Event ev)
  with assms(2) have "happen X H (Event ev) s = Some s'" by simp
  then show ?thesis
  proof (rule happen_eventE)
    fix ev' st' ov assume e: "flow_run (loop_event X ev' (y_run s)) = Some st'"
      and cs: "ev_cmds ev' = p_cmds (y_pool s)"
      and s': "s' = s\<lparr>y_run := st', y_over := ov, y_pool := (y_pool s)\<lparr>p_msgs := p_msgs (y_pool s) @
        sent_between (y_run s) st', p_cmds := [], p_close := []\<rparr>\<rparr>"
    from loop_event_counts(1) [OF e] assms(1) show ?thesis
      by (simp add: s' tallied_def counted_def arrive_def cs algebra_simps)
  qed
next
  case (Tick now)
  with assms show ?thesis
    by (auto simp: happen_def system_tick_def hand_over_def tallied_def check_heartbeat_def
        send_close_msg_def split: if_splits)
next
  case EnterTls
  with assms show ?thesis by (auto simp: happen_def tallied_def split: if_splits)
qed

lemma happen_booked:
  assumes "received X D s" "booked s" "happen X H a s = Some s'" "split_law X" "length D < 2 ^ 63"
  shows "booked s'"
proof (rule booked_kept [OF assms(2)])
  show "\<exists>ms. conn_s (r_conn (y_run s')) = conn_s (r_conn (y_run s)) @ ms"
    using happen_shape [OF assms(1,3-5)] by auto
  show "counts_kept (r_conn (y_run s)) (r_conn (y_run s'))"
  proof (cases a)
    case (Event ev)
    with assms(3) have "happen X H (Event ev) s = Some s'" by simp
    then show ?thesis by (rule happen_eventE) (auto dest: loop_event_counts(2))
  next
    case (Tick now)
    with assms(3) show ?thesis
      by (auto simp: happen_def system_tick_def check_heartbeat_def send_close_msg_def ch_send_def
          stop_counts split: if_splits) (simp add: counts_kept_def)
  qed (use assms(3) in \<open>auto simp: happen_def counts_kept_def split: if_splits\<close>)
qed

lemma history_books:
  assumes "split_law X" "fresh_start X cl W addr p s" "history X H as s = Some s'"
  shows "booked s'" "tallied s'"
proof -
  let ?D = "stream_bytes (w_stream W addr)"
  have D: "length ?D < 2 ^ 63" and p: "fresh p" "p_cmds p = []"
    using assms(2) by (simp_all add: fresh_start_def)
  have "booked s \<and> tallied s"
    by (rule fresh_startE [OF assms(2)])
      (use p in \<open>auto simp: booked_def tallied_def uncounted_def run_start_def conn_new_def fresh_def\<close>)
  with start_received [OF assms(2)] have start: "received X ?D s \<and> booked s \<and> tallied s" by blast
  have "received X ?D s' \<and> booked s' \<and> tallied s'"
    by (rule history_inv [of "\<lambda>s. received X ?D s \<and> booked s \<and> tallied s", OF _ start assms(3)])
      (use happen_received [OF assms(1) D] happen_booked [OF _ _ _ assms(1) D] happen_tallied in blast)
  then show "booked s'" "tallied s'" by simp_all
qed

text \<open>There are at most as many handled messages as messages with content.\<close>

lemma handled_bound:
  assumes "received X D s"
  shows "length (p_handled (y_pool s)) + stops (conn_s (r_conn (y_run s))) \<le> length (conn_s (r_conn (y_run s)))"
    "d \<in> set (p_handled (y_pool s)) \<Longrightarrow> \<exists>m. as_msg X m = Some d"
proof -
  let ?p = "y_pool s" and ?ms = "conn_s (r_conn (y_run s))"
  obtain later where q: "map (as_msg X) (contents (p_taken ?p)) = map Some (p_handled ?p) @ later"
      and taken: "?ms = p_taken ?p @ p_msgs ?p"
    using assms by (auto simp: received_def queue_inv_def Let_def)
  have "length (p_handled ?p) \<le> length (contents (p_taken ?p))" using arg_cong [OF q, of length] by simp
  also have "\<dots> \<le> length (contents ?ms)" by (simp add: taken)
  finally show "length (p_handled ?p) + stops ?ms \<le> length ?ms"
    using sum_length_filter_compl [of content ?ms] by (simp add: contents_def)
  show "\<exists>m. as_msg X m = Some d" if "d \<in> set (p_handled ?p)"
  proof -
    from that have "Some d \<in> set (map (as_msg X) (contents (p_taken ?p)))" by (simp add: q)
    then show ?thesis by auto
  qed
qed

lemma counter_balance:
  fixes a b :: u32
  assumes "a + b = word_of_nat m" "b + word_of_nat w = word_of_nat n" "w \<le> n" "n \<le> m" "m < 2 ^ 32"
  shows "unat b = n - w" "unat a = m - (n - w)"
proof -
  have unat: "unat (word_of_nat k :: u32) = k" if "k \<le> m" for k
    using that assms(5) by (simp add: unat_of_nat)
  have le: "n - w \<le> m" using assms(4) by simp
  have b: "b = word_of_nat (n - w)" using assms(2,3) by (metis add_diff_cancel_right' of_nat_diff)
  with assms(1) have a: "a = word_of_nat (m - (n - w))" using le by (metis add_diff_cancel_right' of_nat_diff)
  show "unat b = n - w" unfolding b by (rule unat [OF le])
  show "unat a = m - (n - w)" unfolding a by (rule unat) simp
qed

section \<open>Handlers that send at most one command for a message\<close>

definition frugal :: "'h handlers \<Rightarrow> bool" where
  "frugal H \<longleftrightarrow> (\<forall>h m. length (fst (h_on_msg H h m)) \<le> 1) \<and> (\<forall>h. fst (h_on_close H h) = [])"

definition modest :: "'h pool \<Rightarrow> bool" where
  "modest p \<longleftrightarrow> list_all (\<lambda>th. \<not> producer th) (p_threads p) \<and> length (p_sent p) \<le> length (p_handled p)"

lemma run_thread_modest:
  assumes "frugal H" "modest p"
  shows "modest (run_thread X H i p)"
proof (cases "length (p_threads p) \<le> i")
  case False
  have th: "\<not> producer (p_threads p ! i)" using False assms(2) by (simp add: modest_def list_all_length)
  have on: "h_on_msg H h m = (cs, r) \<Longrightarrow> length cs \<le> 1" "h_on_close H h = (cs, r) \<Longrightarrow> cs = []"
    for h m cs r
    using assms(1) unfolding frugal_def by (metis fst_conv)+
  show ?thesis
    by (cases "p_threads p ! i")
      (use False assms(2) th in \<open>auto simp: run_thread_def thread_step_defs modest_def list_all_update
        split: option.splits bytes_msg.splits prod.splits sum.splits dest!: on\<close>)
qed (simp add: run_thread_def assms)

lemma happen_modest:
  assumes "frugal H" "modest (y_pool s)" "happen X H a s = Some s'"
  shows "modest (y_pool s')"
proof (cases a)
  case (Event ev)
  with assms(2,3) show ?thesis by (auto simp: modest_def elim!: happen_eventE)
qed (use assms in \<open>auto simp: happen_def act_def run_thread_modest, auto simp: modest_def
    system_tick_def hand_over_def split: if_splits\<close>)

lemma history_modest:
  assumes "frugal H" "fresh_start X cl W addr p s" "history X H as s = Some s'"
    and "list_all (\<lambda>th. \<not> producer th) (p_threads p)"
  shows "modest (y_pool s')"
proof (rule history_inv [of "\<lambda>s. modest (y_pool s)", OF _ _ assms(3)])
  show "modest (y_pool s')" if "modest (y_pool s)" "happen X H a s = Some s'" for a s s'
    by (rule happen_modest [OF assms(1) that])
  show "modest (y_pool s)"
    using assms(2,4) by (auto simp: fresh_start_def system_start_def modest_def fresh_def)
qed

text \<open>What the counters say in such a client.\<close>

lemma frugal_counters:
  assumes "split_law X" "proper_start X H cl W addr p s" "history X H as s = Some s'"
    and "frugal H" "list_all (\<lambda>th. \<not> producer th) (p_threads p)"
    and "length (conn_s (r_conn (y_run s'))) < 2 ^ 32"
  shows "unat (processed (r_conn (y_run s'))) + length (waiting s') = length (p_sent (y_pool s')) \<and>
    length (waiting s') \<le> unat (in_flight (r_conn (y_run s'))) \<and>
    unat (in_flight (r_conn (y_run s'))) + unat (processed (r_conn (y_run s'))) \<le>
      length (conn_s (r_conn (y_run s')))"
proof -
  let ?c = "r_conn (y_run s')" and ?n = "length (p_sent (y_pool s'))" and ?w = "length (waiting s')"
  note fresh = proper_fresh [OF assms(2)]
  note books = history_books [OF assms(1) fresh assms(3)]
  have rec: "received X (stream_bytes (w_stream W addr)) s'"
    by (rule always_received [OF assms(1) fresh assms(3)])
  obtain k where k: "k \<le> stops (conn_s ?c)" "uncounted ?c = word_of_nat k"
    using books(1) by (auto simp: booked_def Let_def)
  let ?m = "length (conn_s ?c) - k"
  have "k \<le> length (conn_s ?c)" using k(1) length_filter_le order_trans by blast
  then have sum: "in_flight ?c + processed ?c = word_of_nat ?m"
    using k(2) by (simp add: uncounted_def of_nat_diff algebra_simps)
  obtain its where "p_sent (y_pool s') = commands_of its @ waiting s'"
    using always_written [OF assms(2,3)] by (auto elim!: writtenE)
  then have w: "?w \<le> ?n" by simp
  have "?n \<le> length (p_handled (y_pool s'))"
    using history_modest [OF assms(4) fresh assms(3,5)] by (simp add: modest_def)
  then have n: "?n \<le> ?m" using handled_bound(1) [OF rec] k(1) by simp
  have "?m < 2 ^ 32" using assms(6) by simp
  from counter_balance [OF sum books(2) [unfolded tallied_def] w n this] w n show ?thesis by auto
qed

text \<open>
  C8: the counters stay in their range when handlers send at most one command for a message and none
  from \<open>on_close\<close>. In such a client without producers, started with empty channels, as
  long as fewer than 2 ^ 32 messages have been sent to the readers, and otherwise whatever the
  server, the sockets and the user do and however everything interleaves: what has been processed
  and what waits is what handlers have sent; the waiting commands are never more than the messages
  in flight; and both counters together never exceed the messages sent to the readers. So writing
  the waiting commands never takes \<open>in_flight\<close> below zero, nor
  \<open>processed\<close>, which is never reset, beyond its width before that many messages have
  come, also in a build that checks.
\<close>

theorem counters_stay_in_range:
  assumes "split_law X" "proper_start X H cl W addr p s" "history X H as s = Some s'"
    and "frugal H" "list_all (\<lambda>th. \<not> producer th) (p_threads p)"
    and "c = r_conn (y_run s')" "length (conn_s c) < 2 ^ 32"
  shows "unat (processed c) + length (waiting s') = length (p_sent (y_pool s')) \<and>
    length (waiting s') \<le> unat (in_flight c) \<and>
    unat (in_flight c) + unat (processed c) \<le> length (conn_s c) \<and>
    counters_ok X (length (waiting s')) c"
  using frugal_counters [OF assms(1-5)] assms(6,7) unfolding counters_ok_def by auto

lemma examples_frugal: "frugal example_handlers"
  by (simp add: frugal_def example_handlers_def my_reader_on_msg_def default_on_close_def)

text \<open>The message has been handled and its FIN waits.\<close>

theorem counters_stay_in_range_witness:
  "\<exists>(s :: unit system) s1. history demo_ext example_handlers (Event (rd_ev 1) # map Thread [0, 0, 0]) s = Some s1 \<and>
     waiting s1 = [as_cmd (Fin demo_id)] \<and> length (p_sent (y_pool s1)) = 1 \<and>
     unat (processed (r_conn (y_run s1))) = 0 \<and> 1 \<le> unat (in_flight (r_conn (y_run s1))) \<and>
     counters_ok demo_ext 1 (r_conn (y_run s1))"
proof (rule demo_finished)
  fix s s1 :: "unit system"
  assume s: "proper_start demo_ext example_handlers (demo_client ''t'' ''c'') demo_net 0 demo_pool s"
    and s1: "history demo_ext example_handlers (Event (rd_ev 1) # map Thread [0, 0, 0]) s = Some s1"
    and at: "conn_r (r_conn (y_run s1)) = []" "p_cmds (y_pool s1) = [as_cmd (Fin demo_id)]"
      "p_sent (y_pool s1) = [as_cmd (Fin demo_id)]"
      "conn_s (r_conn (y_run s1)) = [BytesMsg 0 (demo_bytes demo_id)]"
  have "list_all (\<lambda>th. \<not> producer th) (p_threads demo_pool)"
    by (simp add: demo_pool_def spawn_def spawn_wakers_def pool_new_def numeral_2_eq_2)
  moreover have "length (conn_s (r_conn (y_run s1))) < 2 ^ 32" by (simp add: at(4))
  ultimately have "unat (processed (r_conn (y_run s1))) + length (waiting s1) = length (p_sent (y_pool s1)) \<and>
      length (waiting s1) \<le> unat (in_flight (r_conn (y_run s1))) \<and>
      counters_ok demo_ext (length (waiting s1)) (r_conn (y_run s1))"
    using counters_stay_in_range [OF demo_laws(2) s s1 examples_frugal _ refl] by blast
  with s1 at(1-3) show ?thesis by (intro exI [of _ s] exI [of _ s1]) simp
qed

end
