(* ===== verification/Wakeups.thy ===== *)
theory Wakeups
  imports Counters
begin

text \<open>
  How the event loop learns of commands: no command is forgotten between the context, the waker
  and the poll (\<open>no_command_is_forgotten\<close>). \<open>unannounced\<close> relates the commands that wait to the
  units in the sentinel and to the calls of \<open>set_readiness\<close> since a moment when none waited.
\<close>

section \<open>The queue of commands over one event\<close>

lemma loop_event_queue:
  assumes "flow_run (loop_event X ev st) = Some st'"
  shows "conn_r (r_conn st') = [] \<or> conn_r (r_conn st') = conn_r (r_conn (arrive ev st))"
  using assms
proof (cases rule: loop_event_cases)
  case close
  then show ?thesis by (rule close_shape) (simp_all add: send_close_msg_def)
next
  case (read io c sk)
  with read_tcp_writes_nothing [OF read(1)] show ?thesis by (simp add: silent_def)
next
  case request
  from request_counts [OF this] show ?thesis by (simp add: keeps_counts_def)
next
  case (started st1)
  then show ?thesis
    by (auto simp: flush_commands_def write_messages_def dest!: write_message_loop_keeps)
next
  case flush
  then show ?thesis
    by (auto simp: flush_commands_def write_messages_def dest!: write_message_loop_keeps)
qed

text \<open>The waker's own event leaves none behind.\<close>

lemma waker_event_queue:
  assumes "happen X H (Event ev) s = Some s'" "ev_token ev = CLIENT_TOKEN"
  shows "waiting s' = []"
proof -
  let ?ev = "ev\<lparr>ev_cmds := p_cmds (y_pool s), ev_close := p_close (y_pool s)\<rparr>"
  have "loop_event X ?ev (y_run s) = flow_of (flush_commands X ?ev (arrive ?ev (y_run s))) Continue"
    using assms(2) by (simp add: loop_event_def plain_event_def tls_event_def Let_def token_defs)
  with assms(1) obtain st' where "flush_commands X ?ev (arrive ?ev (y_run s)) = Inr st'"
      "r_conn (y_run s') = r_conn st'" "p_cmds (y_pool s') = []"
    by (cases "flush_commands X ?ev (arrive ?ev (y_run s))")
      (auto simp: happen_def system_event_def Let_def hand_over_def split: if_splits)
  then show ?thesis
    by (auto simp: flush_commands_def write_messages_def dest!: write_message_loop_keeps)
qed

section \<open>The accounts of the waker\<close>

text \<open>\<open>n\<close>: the number of commands that had been sent when none waited.\<close>

definition unannounced :: "nat \<Rightarrow> 'h system \<Rightarrow> bool" where
  "unannounced n s \<longleftrightarrow> wake_inv (y_pool s) \<and> length (waiting s) + n \<le> length (p_sent (y_pool s))"

lemma happen_unannounced:
  assumes "unannounced n s" "happen X H a s = Some s'"
  shows "unannounced n s'"
proof (cases a)
  case (Thread i)
  obtain new where "p_sent (run_thread X H i (y_pool s)) = p_sent (y_pool s) @ new"
      "p_cmds (run_thread X H i (y_pool s)) = p_cmds (y_pool s) @ new"
    using run_thread_cmds by blast
  moreover have "wake_inv (run_thread X H i (y_pool s))"
    using assms(1) by (intro run_thread_wake) (simp add: unannounced_def)
  ultimately show ?thesis using assms by (auto simp: Thread happen_def act_def unannounced_def)
next
  case (Event ev)
  with assms(2) have "happen X H (Event ev) s = Some s'" by simp
  then show ?thesis
  proof (rule happen_eventE)
    fix ev' st' ov assume e: "flow_run (loop_event X ev' (y_run s)) = Some st'"
      and cs: "ev_cmds ev' = p_cmds (y_pool s)"
      and s': "s' = s\<lparr>y_run := st', y_over := ov, y_pool := (y_pool s)\<lparr>p_msgs := p_msgs (y_pool s) @
        sent_between (y_run s) st', p_cmds := [], p_close := []\<rparr>\<rparr>"
    from loop_event_queue [OF e] assms(1) show ?thesis
      by (auto simp: s' unannounced_def wake_inv_def arrive_def cs)
  qed
qed (use assms in \<open>auto simp: happen_def act_def system_tick_def hand_over_def unannounced_def
    wake_inv_def check_heartbeat_def send_close_msg_def split: if_splits\<close>)

lemma start_waits:
  assumes "fresh_start X cl W addr p s"
  shows "fresh (y_pool s)" "waiting s = []"
  using assms by (rule fresh_startE; use assms in \<open>auto simp: fresh_start_def run_start_def conn_new_def\<close>)+

lemma history_wakes:
  assumes "fresh_start X cl W addr p s" "history X H as s = Some s'"
  shows "wake_inv (y_pool s')"
proof -
  have "unannounced 0 s"
    using start_waits [OF assms(1)] by (simp add: fresh_def wake_inv_def unannounced_def)
  from history_inv [of "unannounced 0", OF happen_unannounced this assms(2)]
  have "unannounced 0 s'" .
  then show ?thesis by (simp add: unannounced_def)
qed

text \<open>
  C30: no command is forgotten. Take any moment in the life of a client when no command waits, and
  any later one: if commands wait then, a unit waits in the sentinel for the waker to take, or the
  waker has called \<open>set_readiness\<close> in between, so that its event is due, unless the call failed,
  which the code only logs. And the event of the waker, if it is handled without a panic, leaves
  no command waiting. (Several calls may lead to one event only; this is enough.)
\<close>

theorem no_command_is_forgotten:
  assumes "fresh_start X cl W addr p s" "history X H as s = Some s1" "waiting s1 = []"
    and "history X H bs s1 = Some s2"
  shows "(waiting s2 = [] \<or> p_sentinel (y_pool s2) \<noteq> [] \<or>
      p_wakes (y_pool s1) < p_wakes (y_pool s2) \<or> p_wake_errs (y_pool s1) < p_wake_errs (y_pool s2)) \<and>
    (\<forall>ev s3. ev_token ev = CLIENT_TOKEN \<and> happen X H (Event ev) s2 = Some s3 \<longrightarrow> waiting s3 = [])"
proof (intro conjI allI impI)
  let ?n = "length (p_sent (y_pool s1))"
  have wakes: "wake_inv (y_pool s1)" by (rule history_wakes [OF assms(1,2)])
  then have "unannounced ?n s1" using assms(3) by (simp add: unannounced_def)
  from history_inv [of "unannounced ?n", OF happen_unannounced this assms(4)]
  have "wake_inv (y_pool s2)" "length (waiting s2) + ?n \<le> length (p_sent (y_pool s2))"
    by (simp_all add: unannounced_def)
  with wakes show "waiting s2 = [] \<or> p_sentinel (y_pool s2) \<noteq> [] \<or>
      p_wakes (y_pool s1) < p_wakes (y_pool s2) \<or> p_wake_errs (y_pool s1) < p_wake_errs (y_pool s2)"
    by (cases "waiting s2"; cases "p_sentinel (y_pool s2)") (auto simp: wake_inv_def)
next
  fix ev s3 assume "ev_token ev = CLIENT_TOKEN \<and> happen X H (Event ev) s2 = Some s3"
  then show "waiting s3 = []" using waker_event_queue by blast
qed

text \<open>A FIN has been sent and the waker has taken its unit: the FIN still waits, and the event is due.\<close>

theorem no_command_is_forgotten_witness:
  "\<exists>(s :: unit system) s2. waiting s = [] \<and>
     history demo_ext example_handlers (Event (rd_ev 1) # map Thread [0, 0, 0, 2]) s = Some s2 \<and>
     waiting s2 = [as_cmd (Fin demo_id)] \<and> p_sentinel (y_pool s2) = [] \<and> 0 < p_wakes (y_pool s2)"
proof (rule demo_after_read)
  let ?start = "demo_pool\<lparr>p_msgs := [BytesMsg 0 (demo_bytes demo_id)]\<rparr>"
  let ?p = "schedule demo_ext example_handlers ([Run 0, Run 0, Run 0] @ [Run 2]) ?start"
  fix s :: "unit system" and st1
  let ?s1 = "s\<lparr>y_run := st1, y_pool := ?start, y_over := False\<rparr>"
  assume s: "proper_start demo_ext example_handlers (demo_client ''t'' ''c'') demo_net 0 demo_pool s"
    and e1: "happen demo_ext example_handlers (Event (rd_ev 1)) s = Some ?s1"
    and st1: "conn_r (r_conn st1) = []"
  have "history demo_ext example_handlers (map Thread [0, 0, 0, 2]) ?s1 = Some (?s1\<lparr>y_pool := ?p\<rparr>)"
    by (simp only: history_threads) simp
  then have h: "history demo_ext example_handlers (Event (rd_ev 1) # map Thread [0, 0, 0, 2]) s =
      Some (?s1\<lparr>y_pool := ?p\<rparr>)"
    by (simp only: history.simps e1 Option.bind.simps)
  have p: "p_cmds ?p = [as_cmd (Fin demo_id)]" "p_sentinel ?p = []" "p_wake_errs ?p = 0"
    unfolding schedule_append demo_consumed
    by (simp_all add: schedule_def act_def run_thread_def thread_step_defs demo_pool_def
        spawn_def spawn_wakers_def pool_new_def numeral_2_eq_2)
  have start: "waiting s = []" "p_wakes (y_pool s) = 0"
    using start_waits [OF proper_fresh [OF s]] by (simp_all add: fresh_def)
  have "0 < p_wakes ?p"
    using no_command_is_forgotten [OF proper_fresh [OF s] _ start(1) h, of "[]"] st1 p start(2) by auto
  with h p st1 start(1) show ?thesis by (intro exI [of _ s] exI [of _ "?s1\<lparr>y_pool := ?p\<rparr>"]) simp
qed

end
