(* ===== verification/Reader_Program.thy ===== *)
theory Reader_Program
  imports Wakeups
begin

text \<open>
  The example consumer as a whole program: its handler finishes every message it is given. Such
  handlers are frugal, so the counters and the buffer always have room for the commands that
  wait (\<open>finishing_room\<close>), and after fair rounds of the threads and one event of the waker every
  message has been finished (\<open>reader_finishes_every_message\<close>).
\<close>

section \<open>Handlers that finish every message\<close>

definition finishing :: "'h handlers \<Rightarrow> bool" where
  "finishing H \<longleftrightarrow> (\<forall>h m. \<exists>h'. h_on_msg H h m = ([Fin (msg_id m)], Some h')) \<and>
     (\<forall>h. \<exists>h'. h_on_close H h = ([], Some h'))"

lemma examples_finish: "finishing example_handlers"
  by (simp add: finishing_def example_handlers_def my_reader_on_msg_def default_on_close_def)

lemma finishing_obedient: "finishing H \<Longrightarrow> obedient H"
  unfolding finishing_def obedient_def by (metis option.distinct(1) snd_conv)

lemma finishing_frugal:
  assumes "finishing H"
  shows "frugal H"
  unfolding frugal_def
proof (intro conjI allI)
  show "length (fst (h_on_msg H h m)) \<le> 1" for h m
  proof -
    obtain h' where "h_on_msg H h m = ([Fin (msg_id m)], Some h')"
      using assms unfolding finishing_def by blast
    then show ?thesis by simp
  qed
  show "fst (h_on_close H h) = []" for h
    using assms unfolding finishing_def by (metis fst_conv)
qed

abbreviation fin :: "msg \<Rightarrow> cmd" where
  "fin m \<equiv> as_cmd (Fin (msg_id m))"

text \<open>The commands sent are one FIN for each handled message, in the order of handling.\<close>

definition finished :: "'h pool \<Rightarrow> bool" where
  "finished p \<longleftrightarrow> list_all (\<lambda>th. \<not> producer th) (p_threads p) \<and> p_sent p = map fin (p_handled p)"

lemma run_thread_finished:
  assumes "finishing H" "finished p"
  shows "finished (run_thread X H i p)"
proof (cases "length (p_threads p) \<le> i")
  case False
  have th: "\<not> producer (p_threads p ! i)" using False assms(2) by (simp add: finished_def list_all_length)
  have on: "\<exists>h'. h_on_msg H h m = ([Fin (msg_id m)], Some h')" "\<exists>h'. h_on_close H h = ([], Some h')" for h m
    using assms(1) unfolding finishing_def by blast+
  show ?thesis
  proof (cases "p_threads p ! i")
    case (CHandle h t b)
    show ?thesis
    proof (cases "decode_msg X b")
      case (Inl e)
      with False assms(2) CHandle show ?thesis
        by (simp add: run_thread_def thread_step_defs finished_def list_all_update)
    next
      case (Inr d)
      obtain ts att ident body where "d = (ts, att, ident, body)" by (cases d)
      moreover obtain h' where "h_on_msg H h \<lparr>msg_timeout_ms = t, msg_timestamp = ts, msg_attemps = att,
          msg_id = ident, msg_body = body\<rparr> = ([Fin ident], Some h')"
        using on(1) by (metis msg.select_convs(4))
      ultimately show ?thesis
        using False assms(2) CHandle Inr
        by (simp add: run_thread_def thread_step_defs finished_def list_all_update)
    qed
  next
    case (CClose h)
    with False assms(2) show ?thesis
      using on(2) [of h] by (auto simp: run_thread_def thread_step_defs finished_def list_all_update)
  qed (use False assms(2) th in \<open>auto simp: run_thread_def thread_step_defs finished_def list_all_update
      split: option.splits bytes_msg.splits prod.splits\<close>)
qed (simp add: run_thread_def assms)

lemma happen_finished:
  assumes "finishing H" "finished (y_pool s)" "happen X H a s = Some s'"
  shows "finished (y_pool s')"
proof (cases a)
  case (Event ev)
  with assms(2,3) show ?thesis by (auto simp: finished_def elim!: happen_eventE)
qed (use assms in \<open>auto simp: happen_def act_def run_thread_finished, auto simp: finished_def
    system_tick_def hand_over_def split: if_splits\<close>)

lemma history_finished:
  assumes "finishing H" "fresh_start X cl W addr p s" "history X H as s = Some s'"
    and "list_all (\<lambda>th. \<not> producer th) (p_threads p)"
  shows "finished (y_pool s')"
proof (rule history_inv [of "\<lambda>s. finished (y_pool s)", OF _ _ assms(3)])
  show "finished (y_pool s')" if "finished (y_pool s)" "happen X H a s = Some s'" for a s s'
    by (rule happen_finished [OF assms(1) that])
  show "finished (y_pool s)"
    using assms(2,4) by (auto simp: fresh_start_def system_start_def finished_def fresh_def)
qed

text \<open>A FIN is at most 21 bytes: the identifier of a decoded message is 16 bytes or empty.\<close>

lemma ident_length:
  assumes "split_law X" "as_msg X m = Some d"
  shows "length (as_bytes (msg_id d)) \<le> 16"
proof -
  obtain t b where m: "m = BytesMsg t b" by (cases m)
  with assms(2) obtain ts att body where "decode_msg X b = Inr (ts, att, msg_id d, body)"
    by (auto simp: as_msg_def split: sum.splits prod.splits)
  then obtain x front rest where "split_to X 16 x = Inr (front, rest)"
      "msg_id d = (case from_utf8 front of Some s \<Rightarrow> s | None \<Rightarrow> '''')"
    by (auto simp: decode_msg_def Let_def)
  moreover from this(1) have "length front = 16" using split_to_Inr [OF assms(1)] by blast
  ultimately show ?thesis by (auto split: option.splits dest!: from_utf8_SomeD)
qed

lemma fin_length:
  assumes "split_law X" "as_msg X m = Some d"
  shows "length (wire_cmd (RawCmd (fin d))) \<le> 21"
  using ident_length [OF assms] by (simp add: wire_cmd_def wire_line_def)

lemma concat_bound:
  assumes "\<And>x. x \<in> set xs \<Longrightarrow> length (g x) \<le> k"
  shows "length (concat (map g xs)) \<le> k * length xs"
  using assms by (induction xs) fastforce+

text \<open>So the waiting commands always have room.\<close>

lemma finishing_room:
  assumes "split_law X" "reserve_law X" "proper_start X H cl W addr p s" "history X H as s = Some s'"
    and "finishing H" "list_all (\<lambda>th. \<not> producer th) (p_threads p)"
    and "length (conn_s (r_conn (y_run s'))) < 2 ^ 32"
    and "length (bm_data (buffer (y_run s'))) < 2 ^ 62"
  shows "room_for_waiting X s'"
proof -
  note fresh = proper_fresh [OF assms(3)]
  have rec: "received X (stream_bytes (w_stream W addr)) s'" by (rule always_received [OF assms(1) fresh assms(4)])
  have sent: "p_sent (y_pool s') = map fin (p_handled (y_pool s'))"
    using history_finished [OF assms(5) fresh assms(4,6)] by (simp add: finished_def)
  obtain its where w: "p_sent (y_pool s') = commands_of its @ waiting s'"
    using always_written [OF assms(3,4)] by (auto elim!: writtenE)
  note counters = frugal_counters [OF assms(1,3,4) finishing_frugal [OF assms(5)] assms(6,7)]
  have len: "length (waiting s') \<le> length (conn_s (r_conn (y_run s')))" using counters by linarith
  have "length (wire_cmd (RawCmd m)) \<le> 21" if "m \<in> set (waiting s')" for m
  proof -
    have "m \<in> set (p_sent (y_pool s'))" using that by (simp add: w)
    then obtain d where "m = fin d" "d \<in> set (p_handled (y_pool s'))" by (auto simp: sent)
    then show ?thesis using handled_bound(2) [OF rec] fin_length [OF assms(1)] by blast
  qed
  then have "length (concat (map (\<lambda>m. wire_cmd (RawCmd m)) (waiting s'))) \<le> 21 * length (waiting s')"
    by (rule concat_bound)
  also have "\<dots> < 21 * 2 ^ 32" using len assms(7) by simp
  finally have "length (concat (map (\<lambda>m. wire_cmd (RawCmd m)) (waiting s'))) < 21 * 2 ^ 32" .
  moreover have "counters_ok X (length (waiting s')) (r_conn (y_run s'))"
    using counters assms(7) unfolding counters_ok_def by linarith
  ultimately show ?thesis using assms(8) by (simp add: room_for_waiting_def)
qed

text \<open>
  C4: the consumer finishes every message. In a client with at least one consumer and no producer,
  started with empty channels, whose handlers never panic and answer each message with its FIN and a
  stop with nothing, as the example consumer does: if the messages sent to the readers so far are
  fewer than 2 ^ 32 and each, unless empty, can be decoded (it has 26 bytes at least), then, however
  the socket and the schedule have behaved while \<open>run\<close> was polling, three fair rounds
  of the threads for each message and three more, followed by one event of the waker, which is
  handled without a panic, have this outcome: every message up to the first stop message has been
  handled, in order, and its FIN has been given to the socket, in that order, once each; on a socket
  that takes what it is given, all of them are on the wire. (A shorter message or a panic in a
  handler would end the readers.)
\<close>

theorem reader_finishes_every_message:
  assumes "reserve_law X" "reserve_keeps X" "split_law X" "proper_start X H cl W addr p s"
    and "history X H as s = Some s1" "\<not> y_over s1" "ev_token ev = CLIENT_TOKEN"
    and "list_ex consumer (p_threads p)" "list_all (\<lambda>th. \<not> producer th) (p_threads p)" "finishing H"
    and "ms = conn_s (r_conn (y_run s1))" "list_all (decodable X) ms"
    and "length ms < 2 ^ 32" "length (bm_data (buffer (y_run s1))) < 2 ^ 62"
    and "list_all (\<lambda>r. set [0..<length (p_threads (y_pool s1))] \<subseteq> set r) rs" "3 * length ms + 3 \<le> length rs"
  shows "\<exists>s2 bs rest its. history X H (map Thread (concat rs) @ [Event ev]) s1 = Some s2 \<and>
    map Some (p_handled (y_pool s2)) = map (as_msg X) (takeWhile content ms) \<and> waiting s2 = [] \<and>
    s_out (r_sock (y_run s2)) = sent_bytes bs \<and> batch_items bs @ rest = Magic # its \<and>
    commands_of (batch_items bs) = map fin (p_handled (y_pool s2)) \<and>
    (s_wr (w_stream W addr) = [] \<longrightarrow> sent_bytes bs = items_bytes (batch_items bs))"
proof -
  let ?q = "schedule X H (map Run (concat rs)) (y_pool s1)"
  let ?s = "s1\<lparr>y_pool := ?q\<rparr>"
  note fresh = proper_fresh [OF assms(4)] and obedient = finishing_obedient [OF assms(10)]
  have "serving X (y_pool s1)"
    by (rule start_serving [OF assms(3) fresh assms(5,8,9) obedient]) (use assms(12) in \<open>simp add: assms(11)\<close>)
  from rounds_serve_all [OF always_received [OF assms(3) fresh assms(5)] this obedient assms(15) _ refl]
  have handled: "map Some (p_handled ?q) = map (as_msg X) (takeWhile content ms)"
    using assms(16) by (simp add: assms(11))
  have threads: "history X H (map Thread (concat rs)) s1 = Some ?s" by (rule history_threads)
  with assms(5) have s: "history X H (as @ map Thread (concat rs)) s = Some ?s" by (simp add: history_append)
  have "room_for_waiting X ?s"
    by (rule finishing_room [OF assms(3,1,4) s assms(10,9)]) (use assms(11,13,14) in simp_all)
  then obtain s2 bs rest its where s2: "happen X H (Event ev) ?s = Some s2" "waiting s2 = []"
      "s_out (r_sock (y_run s2)) = sent_bytes bs" "batch_items bs @ rest = Magic # its"
      "commands_of (batch_items bs) = p_sent ?q"
      "s_wr (w_stream W addr) = [] \<longrightarrow> sent_bytes bs = items_bytes (batch_items bs)"
    using waker_event_flushes [OF assms(1,2,4) s _ _ assms(7)] assms(6) by auto
  have "p_handled (y_pool s2) = p_handled ?q" using s2(1) by (auto elim!: happen_eventE)
  moreover have "p_sent ?q = map fin (p_handled ?q)"
    using history_finished [OF assms(10) fresh s assms(9)] by (simp add: finished_def)
  moreover have "history X H (map Thread (concat rs) @ [Event ev]) s1 = Some s2"
    by (simp add: history_append threads s2(1) del: history.simps) (simp add: s2(1))
  ultimately show ?thesis using s2(2-6) handled by auto
qed

text \<open>The example handlers and the message that has just been read; two consumers.\<close>

theorem reader_finishes_every_message_witness:
  "\<exists>(s1 :: unit system) s2 its. conn_s (r_conn (y_run s1)) = [BytesMsg 0 (demo_bytes demo_id)] \<and>
     history demo_ext example_handlers (map Thread (concat (replicate 6 [3, 1, 2, 0])) @ [Event waker_ev]) s1 =
       Some s2 \<and>
     s_out (r_sock (y_run s2)) = items_bytes its \<and> commands_of its = [as_cmd (Fin demo_id)]"
proof (rule demo_after_read)
  fix s :: "unit system" and st1
  let ?m = "BytesMsg 0 (demo_bytes demo_id)"
  let ?s1 = "s\<lparr>y_run := st1, y_pool := demo_pool\<lparr>p_msgs := [?m]\<rparr>, y_over := False\<rparr>"
  assume s: "proper_start demo_ext example_handlers (demo_client ''t'' ''c'') demo_net 0 demo_pool s"
    and e1: "happen demo_ext example_handlers (Event (rd_ev 1)) s = Some ?s1"
    and st1: "conn_s (r_conn st1) = [?m]" "bm_data (w_buf (r_conn st1)) = as_bytes VERSION"
  have h: "history demo_ext example_handlers [Event (rd_ev 1)] s = Some ?s1" using e1 by simp
  have pool: "p_threads demo_pool = [CLock (), CLock (), SRecv, MRecv]"
    by (simp add: demo_pool_def spawn_def spawn_wakers_def pool_new_def numeral_2_eq_2)
  have m: "as_msg demo_ext ?m = Some \<lparr>msg_timeout_ms = 0, msg_timestamp = 5, msg_attemps = 1,
      msg_id = demo_id, msg_body = [7]\<rparr>"
    using demo_decode [of demo_id] by (simp add: as_msg_def demo_id_def valid_str_def utf8_ranges_def)
  have calm: "\<not> y_over ?s1" "ev_token waker_ev = CLIENT_TOKEN" by (simp_all add: waker_ev_def)
  have threads: "list_ex consumer (p_threads demo_pool)" "list_all (\<lambda>th. \<not> producer th) (p_threads demo_pool)"
      "list_all (\<lambda>r. set [0..<length (p_threads (y_pool ?s1))] \<subseteq> set r) (replicate 6 [3, 1, 2, 0])"
    using pool by (auto simp: list_all_iff)
  have ms: "[?m] = conn_s (r_conn (y_run ?s1))" "list_all (decodable demo_ext) [?m]"
      "length [?m] < 2 ^ 32" "length (bm_data (buffer (y_run ?s1))) < 2 ^ 62"
    using m by (simp_all add: st1 VERSION_def)
  have enough: "3 * length [?m] + 3 \<le> length (replicate 6 [3, 1, 2, 0 :: nat])" by simp
  obtain s2 bs where s2: "history demo_ext example_handlers
      (map Thread (concat (replicate 6 [3, 1, 2, 0])) @ [Event waker_ev]) ?s1 = Some s2"
      "map Some (p_handled (y_pool s2)) = map (as_msg demo_ext) (takeWhile content [?m])"
      "s_out (r_sock (y_run s2)) = sent_bytes bs"
      "commands_of (batch_items bs) = map fin (p_handled (y_pool s2))"
      "s_wr (w_stream demo_net 0) = [] \<longrightarrow> sent_bytes bs = items_bytes (batch_items bs)"
    using reader_finishes_every_message [OF demo_laws(1) demo_reserve_keeps demo_laws(2) s h calm threads(1,2)
        examples_finish ms threads(3) enough]
    by blast
  from s2(2) m have "map fin (p_handled (y_pool s2)) = [as_cmd (Fin demo_id)]" by auto
  moreover have "s_wr (w_stream demo_net 0) = []" by (simp add: demo_net_def demo_world_def demo_sock_def)
  moreover have "conn_s (r_conn (y_run ?s1)) = [?m]" by (simp add: st1)
  ultimately show ?thesis
    using s2(1,3-5) by (intro exI [of _ ?s1] exI [of _ s2] exI [of _ "batch_items bs"]) simp
qed

end
