(* ===== verification/Silence.thy ===== *)
theory Silence
  imports System_Props
begin

text \<open>
  What a missed heartbeat does to a client, and what stays so: the readers end for good while the
  connection goes on (\<open>silence_ends_the_readers\<close>).
\<close>

section \<open>A missed heartbeat\<close>

text \<open>
  C7: silence ends the readers and not the client. In a client with at least one consumer and no
  producer, started with empty channels, whose handlers never panic, let every message sent to the
  readers so far, unless empty, be decodable (26 bytes at least). When a poll of the plain loop
  returns more than 45 seconds after the last heartbeat that was answered, the readers are told to
  stop and nothing else is done: after three fair rounds of the threads for each message and six
  more they have handled what was delivered before (up to an earlier stop message), in order, and
  \<open>on_close\<close> has been called once; the socket is as it was, neither shut down nor
  connected again, and \<open>run\<close> goes on. And whatever happens then, also if the server
  speaks again and sends messages, no handler is ever given one.
\<close>

theorem silence_ends_the_readers:
  assumes "split_law X" "fresh_start X cl W addr p s" "history X H as s = Some s1" "\<not> y_over s1"
    and "list_ex consumer (p_threads p)" "list_all (\<lambda>th. \<not> producer th) (p_threads p)" "obedient H"
    and "ms = conn_s (r_conn (y_run s1))" "list_all (decodable X) ms"
    and "r_tls (y_run s1) \<noteq> 1" "r_last_heartbeat (y_run s1) + HEARTBEAT_TIMEOUT < now"
    and "list_all (\<lambda>r. set [0..<length (p_threads (y_pool s1))] \<subseteq> set r) rs" "3 * length ms + 6 \<le> length rs"
  shows "\<exists>s2. history X H (Tick now # map Thread (concat rs)) s1 = Some s2 \<and>
    y_run s2 = send_close_msg (y_run s1) \<and> \<not> y_over s2 \<and>
    map Some (p_handled (y_pool s2)) = map (as_msg X) (takeWhile content ms) \<and> p_closed (y_pool s2) = 1 \<and>
    (\<forall>bs s3. history X H bs s2 = Some s3 \<longrightarrow>
       p_handled (y_pool s3) = p_handled (y_pool s2) \<and> p_closed (y_pool s3) = 1)"
proof -
  let ?t = "system_tick now s1"
  let ?q = "schedule X H (map Run (concat rs)) (y_pool ?t)"
  have late: "check_heartbeat now (y_run s1) = send_close_msg (y_run s1)"
    using assms(11) by (simp add: check_heartbeat_def)
  have tick: "happen X H (Tick now) s1 = Some ?t" using assms(4,10) by (simp add: happen_def)
  with assms(3) have s: "history X H (as @ [Tick now]) s = Some ?t" by (simp add: history_append)
  have t: "conn_s (r_conn (y_run ?t)) = ms @ [BytesMsg 0 []]" "y_run ?t = send_close_msg (y_run s1)"
      "p_threads (y_pool ?t) = p_threads (y_pool s1)" "\<not> y_over ?t"
    using assms(4,8) by (simp_all add: system_tick_def late send_close_msg_def ch_send_def hand_over_def)
  have "serving X (y_pool ?t)"
    by (rule start_serving [OF assms(1,2) s assms(5-7)]) (use t(1) assms(9) in simp)
  note rounds = rounds_end_readers [OF always_received [OF assms(1,2) s] this assms(7) _ t(1) assms(13) refl]
  have q: "ended (p_handled ?q) ?q" "map Some (p_handled ?q) = map (as_msg X) (takeWhile content ms)"
    using rounds assms(12) by (simp_all add: t(3))
  have "history X H (Tick now # map Thread (concat rs)) s1 = Some (?t\<lparr>y_pool := ?q\<rparr>)"
    by (simp only: history.simps tick Option.bind.simps history_threads)
  moreover have "p_handled (y_pool s3) = p_handled ?q \<and> p_closed (y_pool s3) = 1"
    if "history X H bs (?t\<lparr>y_pool := ?q\<rparr>) = Some s3" for bs s3
    using history_ended [OF _ that] q(1) by (auto simp: ended_def)
  ultimately show ?thesis
    using t(2,4) q by (intro exI [of _ "?t\<lparr>y_pool := ?q\<rparr>"]) (simp add: ended_def)
qed

text \<open>A message has been read; then nothing for more than 45 seconds.\<close>

theorem silence_ends_the_readers_witness:
  "\<exists>(s1 :: unit system) now s2. conn_s (r_conn (y_run s1)) = [BytesMsg 0 (demo_bytes demo_id)] \<and>
     history demo_ext example_handlers (Tick now # map Thread (concat (replicate 9 [2, 1, 3, 0]))) s1 = Some s2 \<and>
     map msg_id (p_handled (y_pool s2)) = [demo_id] \<and> p_closed (y_pool s2) = 1 \<and> \<not> y_over s2"
proof (rule demo_after_read)
  fix s :: "unit system" and st1 :: run
  let ?m = "BytesMsg 0 (demo_bytes demo_id)" and ?now = "r_last_heartbeat st1 + HEARTBEAT_TIMEOUT + 1"
  let ?s1 = "s\<lparr>y_run := st1, y_pool := demo_pool\<lparr>p_msgs := [?m]\<rparr>, y_over := False\<rparr>"
  let ?rs = "replicate 9 [2, 1, 3, 0 :: nat]"
  assume s: "proper_start demo_ext example_handlers (demo_client ''t'' ''c'') demo_net 0 demo_pool s"
    and e1: "happen demo_ext example_handlers (Event (rd_ev 1)) s = Some ?s1"
    and st1: "conn_s (r_conn st1) = [?m]" "r_tls st1 = 0"
  have h: "history demo_ext example_handlers [Event (rd_ev 1)] s = Some ?s1" using e1 by simp
  have pool: "p_threads demo_pool = [CLock (), CLock (), SRecv, MRecv]"
    by (simp add: demo_pool_def spawn_def spawn_wakers_def pool_new_def numeral_2_eq_2)
  have m: "as_msg demo_ext ?m = Some \<lparr>msg_timeout_ms = 0, msg_timestamp = 5, msg_attemps = 1,
      msg_id = demo_id, msg_body = [7]\<rparr>"
    using demo_decode [of demo_id] by (simp add: as_msg_def demo_id_def valid_str_def utf8_ranges_def)
  have threads: "list_ex consumer (p_threads demo_pool)" "list_all (\<lambda>th. \<not> producer th) (p_threads demo_pool)"
      "list_all (\<lambda>r. set [0..<length (p_threads (y_pool ?s1))] \<subseteq> set r) ?rs"
    using pool by (auto simp: list_all_iff)
  have calm: "\<not> y_over ?s1" "[?m] = conn_s (r_conn (y_run ?s1))" "list_all (decodable demo_ext) [?m]"
      "r_tls (y_run ?s1) \<noteq> 1" "r_last_heartbeat (y_run ?s1) + HEARTBEAT_TIMEOUT < ?now"
    using m st1 by simp_all
  have enough: "3 * length [?m] + 6 \<le> length ?rs" by simp
  obtain s2 where s2: "history demo_ext example_handlers (Tick ?now # map Thread (concat ?rs)) ?s1 = Some s2"
      "\<not> y_over s2" "map Some (p_handled (y_pool s2)) = map (as_msg demo_ext) (takeWhile content [?m])"
      "p_closed (y_pool s2) = 1"
    using silence_ends_the_readers [OF demo_laws(2) proper_fresh [OF s] h calm(1) threads(1,2)
        examples_obedient calm(2-5) threads(3) enough]
    by blast
  from s2(3) m have "map msg_id (p_handled (y_pool s2)) = [demo_id]" by auto
  with s2(1,2,4) calm(2) show ?thesis by (intro exI [of _ ?s1] exI [of _ ?now] exI [of _ s2]) simp
qed

end
