(* ===== verification/Process.thy ===== *)
theory Process
  imports Workers_Props
begin

text \<open>
  Several clients in one process. The lock \<open>CONNECTED\<close> of \<open>src/client.rs\<close> is a static variable,
  so the threads of all clients share it, while each client has channels of its own. The state
  of the process is that of the lock and a pool for each client; a step is a step of one client,
  which sees the lock through \<open>view\<close>, or the start of another client. One client's stop message
  ends the readers and producers of all of them (\<open>one_stop_ends_every_client\<close>).
\<close>

section \<open>Clients that share the lock\<close>

text \<open>The guard is held by a thread of a client.\<close>

record 'h process =
  pr_connected :: bool
  pr_poisoned :: bool
  pr_holder :: "(nat \<times> nat) option"
  pr_clients :: "'h pool list"

definition process_new :: "'h process" where
  "process_new = \<lparr>pr_connected = True, pr_poisoned = False, pr_holder = None, pr_clients = []\<rparr>"

text \<open>
  The pool of client \<open>k\<close> with the lock as it is: a holder from another client is no thread of
  this pool.
\<close>

definition view :: "nat \<Rightarrow> 'h process \<Rightarrow> 'h pool" where
  "view k P =
     (let p = pr_clients P ! k in
      p\<lparr>p_connected := pr_connected P, p_poisoned := pr_poisoned P,
        p_holder := (case pr_holder P of
            None \<Rightarrow> None
          | Some (k', i) \<Rightarrow> Some (if k' = k then i else length (p_threads p)))\<rparr>)"

definition put_back :: "nat \<Rightarrow> 'h pool \<Rightarrow> 'h process \<Rightarrow> 'h process" where
  "put_back k q P =
     P\<lparr>pr_connected := p_connected q, pr_poisoned := p_poisoned q,
       pr_holder := (case p_holder q of
           None \<Rightarrow> None
         | Some i \<Rightarrow> if i < length (p_threads q) then Some (k, i) else pr_holder P),
       pr_clients := (pr_clients P)[k := q]\<rparr>"

text \<open>What can happen: a step of a client, or a new client with its threads.\<close>

datatype 'h process_action = Client nat action | Start nat nat 'h

definition process_act :: "ext \<Rightarrow> (nat \<Rightarrow> 'h handlers) \<Rightarrow> 'h process_action \<Rightarrow> 'h process \<Rightarrow> 'h process" where
  "process_act X Hs a P =
     (case a of
        Client k b \<Rightarrow>
          if k < length (pr_clients P) then put_back k (act X (Hs k) b (view k P)) P else P
      | Start n m h \<Rightarrow>
          P\<lparr>pr_clients := pr_clients P @ [spawn_wakers (spawn_producer m (spawn n h pool_new))]\<rparr>)"

definition process_run ::
  "ext \<Rightarrow> (nat \<Rightarrow> 'h handlers) \<Rightarrow> 'h process_action list \<Rightarrow> 'h process \<Rightarrow> 'h process"
where
  "process_run X Hs as = fold (process_act X Hs) as"

inductive process_step :: "ext \<Rightarrow> (nat \<Rightarrow> 'h handlers) \<Rightarrow> 'h process \<Rightarrow> 'h process \<Rightarrow> bool" for X Hs where
  "process_step X Hs P (process_act X Hs a P)"

lemma process_run_steps: "(process_step X Hs)\<^sup>*\<^sup>* P (process_run X Hs as P)"
proof (induction as arbitrary: P)
  case (Cons a as)
  have "process_step X Hs P (process_act X Hs a P)" by (rule process_step.intros)
  with Cons [of "process_act X Hs a P"] show ?case
    by (simp add: process_run_def converse_rtranclp_into_rtranclp)
qed (simp add: process_run_def)

section \<open>What one step of a thread does to the lock\<close>

fun working :: "'h thread \<Rightarrow> bool" where
  "working (CRecv h) = True"
| "working (CHandle h t b) = True"
| "working PHold = True"
| "working th = False"

fun closing :: "'h thread \<Rightarrow> bool" where
  "closing (CClose h) = True"
| "closing th = False"

lemma holding_split: "holding th \<longleftrightarrow> working th \<or> closing th"
  by (cases th) simp_all

lemma working_not_closing: "working th \<Longrightarrow> \<not> closing th"
  by (cases th) simp_all

text \<open>
  The thread stays outside the lock; takes it; goes on with it, towards the stop or not; or drops
  it, after \<open>on_close\<close> or not.
\<close>

definition outside :: "nat \<Rightarrow> 'h pool \<Rightarrow> 'h pool \<Rightarrow> bool" where
  "outside i p q \<longleftrightarrow> \<not> holding (p_threads q ! i) \<and> p_holder q = p_holder p \<and> p_connected q = p_connected p \<and>
     p_closed q = p_closed p \<and> p_handled q = p_handled p \<and> p_published q = p_published p"

definition takes :: "nat \<Rightarrow> 'h pool \<Rightarrow> 'h pool \<Rightarrow> bool" where
  "takes i p q \<longleftrightarrow> working (p_threads q ! i) \<and> p_holder p = None \<and> p_holder q = Some i \<and>
     p_connected p \<and> p_connected q \<and> p_closed q = p_closed p"

definition goes_on :: "nat \<Rightarrow> 'h pool \<Rightarrow> 'h pool \<Rightarrow> bool" where
  "goes_on i p q \<longleftrightarrow> working (p_threads p ! i) \<and> p_holder q = p_holder p \<and> p_closed q = p_closed p \<and>
     (if closing (p_threads q ! i) then \<not> p_connected q
      else working (p_threads q ! i) \<and> p_connected q = p_connected p)"

definition drops :: "nat \<Rightarrow> 'h pool \<Rightarrow> 'h pool \<Rightarrow> bool" where
  "drops i p q \<longleftrightarrow> \<not> holding (p_threads q ! i) \<and> p_holder q = None \<and> p_connected q = p_connected p \<and>
     (if closing (p_threads p ! i) then p_closed q = Suc (p_closed p) \<and> p_handled q = p_handled p \<and>
        p_published q = p_published p
      else p_closed q = p_closed p)"

lemma run_thread_cases:
  fixes p :: "'h pool" and X H
  assumes "i < length (p_threads p)"
  defines "q \<equiv> run_thread X H i p"
  shows "if holding (p_threads p ! i) then goes_on i p q \<or> drops i p q
    else outside i p q \<or> takes i p q"
  using assms(1) unfolding q_def
  by (cases "p_threads p ! i")
    (auto simp: run_thread_def thread_step_defs outside_def takes_def goes_on_def drops_def
      split: option.splits bytes_msg.splits prod.splits sum.splits)

lemma run_thread_others: "j \<noteq> i \<Longrightarrow> p_threads (run_thread X H i p) ! j = p_threads p ! j"
  by (cases "length (p_threads p) \<le> i"; cases "p_threads p ! i")
    (auto simp: run_thread_def thread_step_defs split: option.splits bytes_msg.splits prod.splits sum.splits)

section \<open>One holder, one stop\<close>

abbreviation clients :: "'h process \<Rightarrow> nat" where
  "clients P \<equiv> length (pr_clients P)"

definition threads_of :: "nat \<Rightarrow> 'h process \<Rightarrow> 'h thread list" where
  "threads_of k P = p_threads (pr_clients P ! k)"

definition total_closed :: "'h process \<Rightarrow> nat" where
  "total_closed P = sum_list (map p_closed (pr_clients P))"

text \<open>The guard is held by exactly the thread that is between taking and dropping it.\<close>

definition one_holder :: "'h process \<Rightarrow> bool" where
  "one_holder P \<longleftrightarrow>
     (\<forall>k < clients P. \<forall>i < length (threads_of k P).
        holding (threads_of k P ! i) \<longleftrightarrow> pr_holder P = Some (k, i)) \<and>
     (\<forall>k i. pr_holder P = Some (k, i) \<longrightarrow> k < clients P \<and> i < length (threads_of k P))"

text \<open>
  While the flag is up nothing has been closed and nobody is closing; when it is down nobody
  works, and \<open>on_close\<close> runs once.
\<close>

definition one_stop :: "'h process \<Rightarrow> bool" where
  "one_stop P \<longleftrightarrow>
     (if pr_connected P then
        total_closed P = 0 \<and> (\<forall>k i. pr_holder P = Some (k, i) \<longrightarrow> \<not> closing (threads_of k P ! i))
      else total_closed P \<le> 1 \<and>
        (\<forall>k i. pr_holder P = Some (k, i) \<longrightarrow> closing (threads_of k P ! i) \<and> total_closed P = 0))"

definition process_inv :: "'h process \<Rightarrow> bool" where
  "process_inv P \<longleftrightarrow> one_holder P \<and> one_stop P"

lemma view_fields [simp]:
  "p_threads (view k P) = threads_of k P" "p_connected (view k P) = pr_connected P"
  "p_closed (view k P) = p_closed (pr_clients P ! k)" "p_handled (view k P) = p_handled (pr_clients P ! k)"
  "p_published (view k P) = p_published (pr_clients P ! k)"
  by (simp_all add: view_def threads_of_def Let_def)

lemma view_holder:
  "p_holder (view k P) = Some i \<Longrightarrow> i < length (threads_of k P) \<Longrightarrow> pr_holder P = Some (k, i)"
  "p_holder (view k P) = None \<longleftrightarrow> pr_holder P = None"
  "pr_holder P = Some (k, i) \<Longrightarrow> p_holder (view k P) = Some i"
  by (auto simp: view_def threads_of_def Let_def split: option.splits if_splits)

lemma put_back_fields [simp]:
  "clients (put_back k q P) = clients P" "pr_connected (put_back k q P) = p_connected q"
  by (simp_all add: put_back_def)

lemma threads_put_back:
  "k < clients P \<Longrightarrow> threads_of k' (put_back k q P) = (if k' = k then p_threads q else threads_of k' P)"
  by (simp add: threads_of_def put_back_def nth_list_update)

lemma sum_list_update_nat:
  "k < length xs \<Longrightarrow> sum_list (xs[k := (x :: nat)]) + xs ! k = sum_list xs + x"
  by (induction xs arbitrary: k) (auto split: nat.splits)

lemma total_put_back:
  "k < clients P \<Longrightarrow> total_closed (put_back k q P) + p_closed (pr_clients P ! k) = total_closed P + p_closed q"
  using sum_list_update_nat [of k "map p_closed (pr_clients P)" "p_closed q"]
  by (simp add: total_closed_def put_back_def map_update)

lemma holder_put_back:
  assumes "one_holder P" "k < clients P" "length (p_threads q) = length (threads_of k P)"
  shows "p_holder q = p_holder (view k P) \<Longrightarrow> pr_holder (put_back k q P) = pr_holder P"
    "p_holder q = Some i \<Longrightarrow> i < length (p_threads q) \<Longrightarrow> pr_holder (put_back k q P) = Some (k, i)"
    "p_holder q = None \<Longrightarrow> pr_holder (put_back k q P) = None"
  using assms
  by (auto simp: put_back_def view_def threads_of_def one_holder_def Let_def split: option.splits if_splits)

lemma one_holder_put_back:
  assumes "one_holder P" "k < clients P" "length (p_threads q) = length (threads_of k P)"
    and "i < length (threads_of k P)" "\<And>j. j \<noteq> i \<Longrightarrow> p_threads q ! j = threads_of k P ! j"
    and "holding (p_threads q ! i) \<longleftrightarrow> pr_holder (put_back k q P) = Some (k, i)"
    and "\<And>x. x \<noteq> (k, i) \<Longrightarrow> pr_holder (put_back k q P) = Some x \<longleftrightarrow> pr_holder P = Some x"
  shows "one_holder (put_back k q P)"
  unfolding one_holder_def put_back_fields
proof (intro conjI allI impI)
  fix k' i' assume k': "k' < clients P" "i' < length (threads_of k' (put_back k q P))"
  show "holding (threads_of k' (put_back k q P) ! i') \<longleftrightarrow> pr_holder (put_back k q P) = Some (k', i')"
  proof (cases "(k', i') = (k, i)")
    case True
    with assms(2,6) show ?thesis by (simp add: threads_put_back)
  next
    case False
    then have "holding (threads_of k' P ! i') \<longleftrightarrow> pr_holder P = Some (k', i')"
      using assms(1,2,3) k' by (auto simp: one_holder_def threads_put_back split: if_splits)
    with False assms(2,5) assms(7) [of "(k', i')"] show ?thesis by (auto simp: threads_put_back)
  qed
next
  fix k' i' assume h: "pr_holder (put_back k q P) = Some (k', i')"
  have "k' < clients P \<and> i' < length (threads_of k' P)"
    using h assms(1,2,4) assms(7) [of "(k', i')"] by (cases "(k', i') = (k, i)") (auto simp: one_holder_def)
  then show "k' < clients P" "i' < length (threads_of k' (put_back k q P))"
    using assms(2,3) by (auto simp: threads_put_back)
qed

lemma client_runs_inv:
  assumes "process_inv P" "k < clients P" "i < length (threads_of k P)"
  shows "process_inv (put_back k (run_thread X H i (view k P)) P)"
proof -
  let ?p = "view k P"
  let ?q = "run_thread X H i ?p"
  let ?P = "put_back k ?q P"
  have inv: "one_holder P" "one_stop P" using assms(1) by (simp_all add: process_inv_def)
  have len: "length (p_threads ?q) = length (threads_of k P)" by (simp add: run_thread_length)
  have others: "\<And>j. j \<noteq> i \<Longrightarrow> p_threads ?q ! j = threads_of k P ! j" by (simp add: run_thread_others)
  have at: "holding (threads_of k P ! i) \<longleftrightarrow> pr_holder P = Some (k, i)"
    using inv(1) assms(2,3) by (simp add: one_holder_def)
  note held = holder_put_back [OF inv(1) assms(2) len]
  note one = one_holder_put_back [OF inv(1) assms(2) len assms(3) others]
  note th = threads_put_back [OF assms(2)]
  note tot = total_put_back [OF assms(2), of ?q]
  have "if holding (threads_of k P ! i) then goes_on i ?p ?q \<or> drops i ?p ?q
      else outside i ?p ?q \<or> takes i ?p ?q"
    using run_thread_cases [of i ?p X H] assms(3) by simp
  then consider (on) "pr_holder P = Some (k, i)" "goes_on i ?p ?q"
    | (drop) "pr_holder P = Some (k, i)" "drops i ?p ?q"
    | (out) "pr_holder P \<noteq> Some (k, i)" "outside i ?p ?q"
    | (take) "pr_holder P \<noteq> Some (k, i)" "takes i ?p ?q"
    using at by (auto split: if_splits)
  then show ?thesis
  proof cases
    case on
    then have h: "pr_holder ?P = Some (k, i)" using held(1) by (simp add: goes_on_def)
    moreover have "one_holder ?P" by (rule one) (use on h in \<open>auto simp: goes_on_def holding_split\<close>)
    moreover have "one_stop ?P"
      using on h inv(2) tot
      by (auto simp: one_stop_def goes_on_def th dest: working_not_closing split: if_splits)
    ultimately show ?thesis by (simp add: process_inv_def)
  next
    case drop
    then have h: "pr_holder ?P = None" using held(3) by (simp add: drops_def)
    moreover have "one_holder ?P" by (rule one) (use drop h in \<open>auto simp: drops_def\<close>)
    moreover have "one_stop ?P"
      using drop h inv(2) tot by (auto simp: one_stop_def drops_def split: if_splits)
    ultimately show ?thesis by (simp add: process_inv_def)
  next
    case out
    then have h: "pr_holder ?P = pr_holder P" using held(1) by (simp add: outside_def)
    moreover have "one_holder ?P" by (rule one) (use out h in \<open>auto simp: outside_def\<close>)
    moreover have "one_stop ?P"
      using out h inv(2) tot others
      by (auto simp: one_stop_def outside_def th split: if_splits)
    ultimately show ?thesis by (simp add: process_inv_def)
  next
    case take
    then have h: "pr_holder ?P = Some (k, i)" "pr_holder P = None"
      using held(2) assms(3) len view_holder(2) [of k P] by (auto simp: takes_def)
    moreover have "one_holder ?P" by (rule one) (use take h in \<open>auto simp: takes_def holding_split\<close>)
    moreover have "one_stop ?P"
      using take h inv(2) tot by (cases "p_threads ?q ! i") (auto simp: one_stop_def takes_def th)
    ultimately show ?thesis by (simp add: process_inv_def)
  qed
qed

text \<open>Steps that leave the threads and the lock alone, such as arrivals on a channel.\<close>

lemma unchanged_inv:
  assumes "process_inv P" "k < clients P" "p_threads q = threads_of k P" "p_holder q = p_holder (view k P)"
    and "p_connected q = pr_connected P" "p_closed q = p_closed (pr_clients P ! k)"
  shows "process_inv (put_back k q P)"
proof -
  have inv: "one_holder P" "one_stop P" using assms(1) by (simp_all add: process_inv_def)
  have h: "pr_holder (put_back k q P) = pr_holder P"
    using holder_put_back(1) [OF inv(1) assms(2) _ assms(4)] assms(3) by simp
  have t: "threads_of k' (put_back k q P) = threads_of k' P" for k'
    using assms(2,3) by (simp add: threads_put_back)
  have "total_closed (put_back k q P) = total_closed P"
    using total_put_back [OF assms(2), of q] assms(6) by simp
  with inv h t assms(5) show ?thesis
    by (auto simp: process_inv_def one_holder_def one_stop_def split: if_splits)
qed

lemma act_inv:
  assumes "process_inv P" "k < clients P"
  shows "process_inv (put_back k (act X H b (view k P)) P)"
proof (cases b)
  case (Run i)
  show ?thesis
  proof (cases "i < length (threads_of k P)")
    case True
    then show ?thesis using assms by (simp add: Run act_def client_runs_inv)
  next
    case False
    then show ?thesis
      using assms by (intro unchanged_inv) (simp_all add: Run act_def run_thread_def)
  qed
qed (use assms in \<open>auto intro!: unchanged_inv simp: act_def\<close>)

lemma start_inv:
  assumes "process_inv P" "list_all (\<lambda>th. \<not> holding th) (p_threads p)" "p_closed p = 0"
  shows "process_inv (P\<lparr>pr_clients := pr_clients P @ [p]\<rparr>)"
proof -
  let ?P = "P\<lparr>pr_clients := pr_clients P @ [p]\<rparr>"
  have t: "threads_of k ?P = threads_of k P" if "k < clients P" for k
    using that by (simp add: threads_of_def nth_append)
  have n: "threads_of (clients P) ?P = p_threads p" by (simp add: threads_of_def)
  have inv: "one_holder P" "one_stop P" using assms(1) by (simp_all add: process_inv_def)
  have "one_holder ?P"
    using inv(1) t n assms(2) by (auto simp: one_holder_def less_Suc_eq list_all_length)
  moreover have "one_stop ?P"
    using inv t assms(3) by (auto simp: one_stop_def one_holder_def total_closed_def)
  ultimately show ?thesis by (simp add: process_inv_def)
qed

lemma process_act_inv: "process_inv P \<Longrightarrow> process_inv (process_act X Hs a P)"
  by (cases a)
    (auto simp: process_act_def act_inv intro!: start_inv
      simp: spawn_def spawn_producer_def spawn_wakers_def pool_new_def list_all_iff)

interpretation shared: invariant_system "\<lambda>P. P = process_new" "process_step X Hs" process_inv for X Hs
proof unfold_locales
  show "process_inv P" if "P = process_new" for P :: "'a process"
    by (simp add: that process_new_def process_inv_def one_holder_def one_stop_def total_closed_def)
  show "process_inv Q" if "process_inv P" "process_step X Hs P Q" for P Q :: "'a process"
    using that(2,1) by cases (simp add: process_act_inv)
qed

section \<open>After the stop\<close>

text \<open>What the handlers have done, client by client.\<close>

definition work_done :: "'h process \<Rightarrow> (msg list \<times> nat) list" where
  "work_done P = map (\<lambda>p. (p_handled p, p_published p)) (pr_clients P)"

lemma stopped_thread:
  fixes P :: "'h process" and X H
  assumes "process_inv P" "\<not> pr_connected P" "k < clients P" "i < length (threads_of k P)"
  defines "q \<equiv> run_thread X H i (view k P)"
  shows "\<not> p_connected q" "p_handled q = p_handled (pr_clients P ! k)"
    "p_published q = p_published (pr_clients P ! k)"
proof -
  have "holding (threads_of k P ! i) \<Longrightarrow> closing (threads_of k P ! i)"
    using assms(1-4) by (auto simp: process_inv_def one_holder_def one_stop_def)
  then have "outside i (view k P) q \<or> drops i (view k P) q \<and> closing (threads_of k P ! i)"
    using run_thread_cases [of i "view k P" X H] assms(2,4) unfolding q_def
    by (auto simp: takes_def goes_on_def split: if_splits dest: working_not_closing)
  then show "\<not> p_connected q" "p_handled q = p_handled (pr_clients P ! k)"
    "p_published q = p_published (pr_clients P ! k)"
    using assms(2) by (auto simp: outside_def drops_def)
qed

lemma stopped_act_thread:
  assumes "process_inv P" "\<not> pr_connected P" "k < clients P"
  shows "\<not> p_connected (act X H b (view k P)) \<and>
    p_handled (act X H b (view k P)) = p_handled (pr_clients P ! k) \<and>
    p_published (act X H b (view k P)) = p_published (pr_clients P ! k)"
proof (cases b)
  case (Run i)
  show ?thesis
  proof (cases "i < length (threads_of k P)")
    case True
    then show ?thesis using stopped_thread [OF assms] by (simp add: Run act_def)
  next
    case False
    then show ?thesis using assms(2) by (simp add: Run act_def run_thread_def)
  qed
qed (use assms(2) in \<open>simp_all add: act_def\<close>)

lemma stopped_act:
  assumes "process_inv P" "\<not> pr_connected P"
  shows "\<not> pr_connected (process_act X Hs a P) \<and>
    (\<exists>n. work_done (process_act X Hs a P) = work_done P @ replicate n ([], 0))"
proof (cases a)
  case (Client k b)
  show ?thesis
  proof (cases "k < clients P")
    case True
    let ?q = "act X (Hs k) b (view k P)"
    have q: "\<not> p_connected ?q" "p_handled ?q = p_handled (pr_clients P ! k)"
        "p_published ?q = p_published (pr_clients P ! k)"
      using stopped_act_thread [OF assms True] by blast+
    then have "work_done (put_back k ?q P) = work_done P"
      using True by (simp add: work_done_def put_back_def map_update list_update_same_conv)
    with q(1) True show ?thesis by (auto simp: Client process_act_def intro: exI [of _ 0])
  next
    case False
    with assms(2) show ?thesis by (auto simp: Client process_act_def intro: exI [of _ 0])
  qed
next
  case (Start n m h)
  with assms(2) show ?thesis
    by (auto simp: process_act_def work_done_def spawn_def spawn_producer_def spawn_wakers_def
        pool_new_def intro: exI [of _ 1])
qed

lemma stopped_run:
  assumes "process_inv P" "\<not> pr_connected P"
  shows "\<not> pr_connected (process_run X Hs as P) \<and>
    (\<exists>n. work_done (process_run X Hs as P) = work_done P @ replicate n ([], 0))"
  using assms
proof (induction as arbitrary: P)
  case Nil
  then show ?case by (auto simp: process_run_def intro: exI [of _ 0])
next
  case (Cons a as)
  let ?P = "process_act X Hs a P"
  obtain n where n: "\<not> pr_connected ?P" "work_done ?P = work_done P @ replicate n ([], 0)"
    using stopped_act [OF Cons.prems] by blast
  obtain m where "\<not> pr_connected (process_run X Hs as ?P)"
      "work_done (process_run X Hs as ?P) = work_done ?P @ replicate m ([], 0)"
    using Cons.IH [OF process_act_inv [OF Cons.prems(1)] n(1)] by blast
  with n(2) show ?case
    by (auto simp: process_run_def replicate_add intro!: exI [of _ "n + m"])
qed

lemma process_reaches: "process_inv (process_run X Hs as process_new)"
  by (rule shared.inv_reachable [OF refl process_run_steps])

lemma process_run_append: "process_run X Hs (as @ bs) P = process_run X Hs bs (process_run X Hs as P)"
  by (simp add: process_run_def)

text \<open>Thread \<open>i\<close> of client \<open>k\<close> is in a critical section.\<close>

definition holds :: "'h process \<Rightarrow> nat \<times> nat \<Rightarrow> bool" where
  "holds P x \<longleftrightarrow> (case x of (k, i) \<Rightarrow>
     k < clients P \<and> i < length (threads_of k P) \<and> holding (threads_of k P ! i))"

text \<open>
  C10: one stop ends every client of the process. However many clients a process starts, when it
  starts them and however their threads, deliveries and requests interleave: at most one thread
  of all the clients is in a critical section, \<open>on_close\<close> is called at most once in all, and
  from the moment one consumer of one client has taken a stop message, no handler of any client
  is given a message and nothing is published any more, also by clients started later.
\<close>

theorem one_stop_ends_every_client:
  "let P = process_run X Hs as process_new in
   (\<forall>x y. holds P x \<longrightarrow> holds P y \<longrightarrow> x = y) \<and> total_closed P \<le> 1 \<and>
   (pr_connected P \<or>
     (\<forall>bs. \<exists>n. work_done (process_run X Hs (as @ bs) process_new) = work_done P @ replicate n ([], 0)))"
proof -
  let ?P = "process_run X Hs as process_new"
  have inv: "process_inv ?P" by (rule process_reaches)
  then have "one_holder ?P" "total_closed ?P \<le> 1"
    by (auto simp: process_inv_def one_stop_def split: if_splits)
  moreover from this(1) have "\<forall>x y. holds ?P x \<longrightarrow> holds ?P y \<longrightarrow> x = y"
    by (auto simp: one_holder_def holds_def)
  ultimately show ?thesis
    using stopped_run [OF inv, of X Hs] by (auto simp: process_run_append Let_def)
qed

text \<open>
  Two clients with one consumer each. The first is told to stop; the message that waits for the
  second is never handled.
\<close>

definition two_clients :: "unit process_action list" where
  "two_clients = [Start 1 0 (), Start 1 0 (), Client 1 (Deliver (BytesMsg 0 (demo_bytes ''0123456789abcdef''))),
     Client 0 (Deliver (BytesMsg 0 [])), Client 0 (Run 0), Client 0 (Run 0), Client 0 (Run 0)]"

theorem one_stop_ends_every_client_witness:
  "let P = process_run demo_ext (\<lambda>k. example_handlers) two_clients process_new in
   total_closed P = 1 \<and> map (\<lambda>p. length (p_msgs p)) (pr_clients P) = [0, 1] \<and>
   (\<forall>bs. \<exists>n. work_done (process_run demo_ext (\<lambda>k. example_handlers) (two_clients @ bs) process_new) =
      replicate n ([], 0))"
proof -
  let ?P = "process_run demo_ext (\<lambda>k. example_handlers) two_clients process_new"
  have "total_closed ?P = 1 \<and> map (\<lambda>p. length (p_msgs p)) (pr_clients ?P) = [0, 1] \<and>
      \<not> pr_connected ?P \<and> work_done ?P = [([], 0), ([], 0)]"
    by (simp add: process_run_def two_clients_def process_act_def put_back_def view_def process_new_def
        spawn_def spawn_producer_def spawn_wakers_def pool_new_def act_def run_thread_def thread_step_defs
        ch_send_def example_handlers_def default_on_close_def total_closed_def work_done_def)
  then have P: "total_closed ?P = 1" "map (\<lambda>p. length (p_msgs p)) (pr_clients ?P) = [0, 1]"
      "\<not> pr_connected ?P" "work_done ?P = replicate 2 ([], 0)" by (simp_all add: numeral_2_eq_2)
  have "\<exists>n. work_done (process_run demo_ext (\<lambda>k. example_handlers) (two_clients @ bs) process_new) =
      replicate n ([], 0)" for bs
    using one_stop_ends_every_client [of demo_ext "\<lambda>k. example_handlers" two_clients] P(3)
    unfolding P(4) Let_def by (metis replicate_add)
  with P(1,2) show ?thesis by (simp only: Let_def) blast
qed

end
