(* ===== verification/Dormant.thy ===== *)
theory Dormant
  imports Workers
begin

text \<open>
  Modules of the repository that \<open>lib.rs\<close> does not compile in: certificate verification
  (\<open>src/tls.rs\<close>), the error type (\<open>src/error.rs\<close>), the typed states (\<open>src/state.rs\<close>), the
  answer to AUTH (\<open>src/auth.rs\<close>) and the asynchronous context (\<open>src/async_context.rs\<close>).
  What \<open>webpki\<close> and \<open>rustls\<close> do is a parameter of the model.
\<close>

section \<open>Certificate verification\<close>

datatype tls_error = NoCertificatesPresented | WebPKIError string | FailedToGetCurrentTime

text \<open>The signature algorithms a certificate may be signed with.\<close>

datatype signature_algorithm =
    ECDSA_P256_SHA256
  | ECDSA_P256_SHA384
  | ECDSA_P384_SHA256
  | ECDSA_P384_SHA384
  | RSA_PSS_2048_8192_SHA256_LEGACY_KEY
  | RSA_PSS_2048_8192_SHA384_LEGACY_KEY
  | RSA_PSS_2048_8192_SHA512_LEGACY_KEY
  | RSA_PKCS1_2048_8192_SHA256
  | RSA_PKCS1_2048_8192_SHA384
  | RSA_PKCS1_2048_8192_SHA512
  | RSA_PKCS1_3072_8192_SHA384

definition SUPPORTED_SIG_ALGS :: "signature_algorithm list" where
  "SUPPORTED_SIG_ALGS =
     [ECDSA_P256_SHA256,
      ECDSA_P256_SHA384,
      ECDSA_P384_SHA256,
      ECDSA_P384_SHA384,
      RSA_PSS_2048_8192_SHA256_LEGACY_KEY,
      RSA_PSS_2048_8192_SHA384_LEGACY_KEY,
      RSA_PSS_2048_8192_SHA512_LEGACY_KEY,
      RSA_PKCS1_2048_8192_SHA256,
      RSA_PKCS1_2048_8192_SHA384,
      RSA_PKCS1_2048_8192_SHA512,
      RSA_PKCS1_3072_8192_SHA384]"

text \<open>
  The packages: reading a certificate, the checks of chain and name, the clock, the check of
  names, reading the file of a private authority (\<open>None\<close>: it cannot be opened, \<open>Some None\<close>: it
  is malformed), the built-in roots, and the verifier \<open>rustls\<close> uses by default.
\<close>

record ('c, 'a, 't) webpki =
  k_end_entity :: "bytes \<Rightarrow> string + 'c"
  k_chain_ok :: "signature_algorithm list \<Rightarrow> 'c \<Rightarrow> bytes list \<Rightarrow> 'a list \<Rightarrow> 't \<Rightarrow> bool"
  k_name_ok :: "'c \<Rightarrow> string \<Rightarrow> bool"
  k_now :: "'t option"
  k_dns_ok :: "string \<Rightarrow> bool"
  k_pem :: "string \<Rightarrow> 'a list option option"
  k_public :: "'a list"
  k_default :: "'a list \<Rightarrow> bytes list \<Rightarrow> string \<Rightarrow> tls_error + unit"

definition verify_none :: "'a list \<Rightarrow> bytes list \<Rightarrow> string \<Rightarrow> tls_error + unit" where
  "verify_none roots certs dns = Inr ()"

definition try_now :: "('c, 'a, 't) webpki \<Rightarrow> tls_error + 't" where
  "try_now K = (case k_now K of None \<Rightarrow> Inl FailedToGetCurrentTime | Some t \<Rightarrow> Inr t)"

text \<open>The verifier for a private authority carries the function that tells it the time.\<close>

record ('c, 'a, 't) private_verification =
  pv_time :: "('c, 'a, 't) webpki \<Rightarrow> tls_error + 't"

definition private_verification_new :: "('c, 'a, 't) private_verification" where
  "private_verification_new = \<lparr>pv_time = try_now\<rparr>"

definition prepare ::
  "('c, 'a, 't) webpki \<Rightarrow> 'a list \<Rightarrow> bytes list \<Rightarrow> tls_error + 'c \<times> bytes list \<times> 'a list"
where
  "prepare K roots certs =
     (if certs = [] then Inl NoCertificatesPresented
      else case k_end_entity K (certs ! 0) of
          Inl e \<Rightarrow> Inl (WebPKIError e)
        | Inr cert \<Rightarrow> Inr (cert, drop 1 certs, roots))"

text \<open>Both checks are made; their results are only logged (\<open>True\<close>: a warning).\<close>

definition private_checks ::
  "('c, 'a, 't) webpki \<Rightarrow> 'c \<Rightarrow> bytes list \<Rightarrow> 'a list \<Rightarrow> 't \<Rightarrow> string \<Rightarrow> bool list"
where
  "private_checks K cert chain roots now dns =
     [\<not> k_chain_ok K SUPPORTED_SIG_ALGS cert chain roots now, \<not> k_name_ok K cert dns]"

definition verify_private ::
  "('c, 'a, 't) webpki \<Rightarrow> ('c, 'a, 't) private_verification \<Rightarrow> 'a list \<Rightarrow> bytes list \<Rightarrow> string \<Rightarrow> (tls_error + unit) \<times> bool list"
where
  "verify_private K v roots certs dns =
     (case prepare K roots certs of
        Inl e \<Rightarrow> (Inl e, [])
      | Inr (cert, chain, trustroots) \<Rightarrow>
          (case pv_time v K of
             Inl e \<Rightarrow> (Inl e, [])
           | Inr now \<Rightarrow> (Inr (), private_checks K cert chain trustroots now dns)))"

text \<open>
  \<open>tls.rs\<close> imports \<open>VerifyServerCert\<close> from \<open>config.rs\<close>, which does not declare it (one reason why
  the module does not compile). These are the three constructors it matches on.
\<close>

datatype verify_server_cert = VerifyNone | PrivateCA string | PublicCA

datatype ('c, 'a, 't) verifier =
    NoCertVerification
  | PrivateVerification "('c, 'a, 't) private_verification"
  | DefaultVerification

record ('c, 'a, 't) tls_session =
  ts_dns :: string
  ts_roots :: "'a list"
  ts_verifier :: "('c, 'a, 't) verifier"

definition tls_session_new ::
  "('c, 'a, 't) webpki \<Rightarrow> string \<Rightarrow> verify_server_cert \<Rightarrow> panic + ('c, 'a, 't) tls_session"
where
  "tls_session_new K host v =
     (if \<not> k_dns_ok K host then Inl UnwrapErr
      else case v of
          VerifyNone \<Rightarrow> Inr \<lparr>ts_dns = host, ts_roots = [], ts_verifier = NoCertVerification\<rparr>
        | PrivateCA path \<Rightarrow>
            (case k_pem K path of
               None \<Rightarrow> Inl UnwrapErr
             | Some None \<Rightarrow> Inl UnwrapErr
             | Some (Some roots) \<Rightarrow>
                 Inr \<lparr>ts_dns = host, ts_roots = roots,
                      ts_verifier = PrivateVerification private_verification_new\<rparr>)
        | PublicCA \<Rightarrow>
            Inr \<lparr>ts_dns = host, ts_roots = k_public K, ts_verifier = DefaultVerification\<rparr>)"

text \<open>
  The documented behaviour of \<open>rustls\<close>, not code of the repository: the session asks the verifier
  that was installed, with the roots and the name it was made with.
\<close>

definition session_verify ::
  "('c, 'a, 't) webpki \<Rightarrow> ('c, 'a, 't) tls_session \<Rightarrow> bytes list \<Rightarrow> tls_error + unit"
where
  "session_verify K s certs =
     (case ts_verifier s of
        NoCertVerification \<Rightarrow> verify_none (ts_roots s) certs (ts_dns s)
      | PrivateVerification v \<Rightarrow> fst (verify_private K v (ts_roots s) certs (ts_dns s))
      | DefaultVerification \<Rightarrow> k_default K (ts_roots s) certs (ts_dns s))"

text \<open>
  C40: a private authority is not checked. With \<open>PrivateCA\<close> the session accepts every list of
  certificates whose first entry can be read (and the clock works), whatever authority signed
  it, whatever name it is for and whatever the authority's file holds: the outcome is the same
  for every choice of the chain check, the name check, the roots and the host.
\<close>

theorem private_ca_accepts_all:
  assumes "tls_session_new K host (PrivateCA path) = Inr s" "k_now K = Some now"
    and "certs = c # rest" "k_end_entity K c = Inr cert"
  shows "session_verify K s certs = Inr () \<and>
    session_verify (K\<lparr>k_chain_ok := ch, k_name_ok := nm\<rparr>) (s\<lparr>ts_dns := h, ts_roots := rs\<rparr>) certs = Inr ()"
  using assms
  by (auto simp: tls_session_new_def session_verify_def verify_private_def prepare_def try_now_def
      private_verification_new_def
      split: if_splits option.splits)

definition demo_webpki :: "(unit, unit, nat) webpki" where
  "demo_webpki =
     \<lparr>k_end_entity = (\<lambda>b. Inr ()), k_chain_ok = (\<lambda>as c ch rs t. False), k_name_ok = (\<lambda>c d. False),
      k_now = Some 1, k_dns_ok = (\<lambda>d. True), k_pem = (\<lambda>p. Some (Some [])), k_public = [],
      k_default = (\<lambda>rs cs d. Inl NoCertificatesPresented)\<rparr>"

theorem private_ca_accepts_all_witness:
  "\<exists>s. tls_session_new demo_webpki ''h'' (PrivateCA ''ca.pem'') = Inr s \<and>
     session_verify demo_webpki s [[1]] = Inr ()"
proof -
  have "tls_session_new demo_webpki ''h'' (PrivateCA ''ca.pem'') =
      Inr \<lparr>ts_dns = ''h'', ts_roots = [], ts_verifier = PrivateVerification private_verification_new\<rparr>"
    by (simp add: tls_session_new_def demo_webpki_def)
  from private_ca_accepts_all [OF this, of 1 "[[1]]" "[1]" "[]" "()"] this show ?thesis
    by (simp add: demo_webpki_def)
qed

section \<open>Errors, states and the answer to AUTH\<close>

datatype ('io, 'tls, 'json) conn_error =
    ConnErr string | IoError 'io | TlsError 'tls | JsonError 'json

record ('io, 'tls, 'json) descriptions =
  d_io :: "'io \<Rightarrow> string"
  d_tls :: "'tls \<Rightarrow> string"
  d_json :: "'json \<Rightarrow> string"

fun error_description ::
  "('io, 'tls, 'json) descriptions \<Rightarrow> ('io, 'tls, 'json) conn_error \<Rightarrow> string"
where
  "error_description D (ConnErr s) = s"
| "error_description D (IoError e) = d_io D e"
| "error_description D (TlsError e) = d_tls D e"
| "error_description D (JsonError e) = d_json D e"

fun error_cause :: "('io, 'tls, 'json) conn_error \<Rightarrow> ('io + 'tls + 'json) option" where
  "error_cause (ConnErr s) = None"
| "error_cause (IoError e) = Some (Inl e)"
| "error_cause (TlsError e) = Some (Inr (Inl e))"
| "error_cause (JsonError e) = Some (Inr (Inr e))"

fun error_display ::
  "('io, 'tls, 'json) descriptions \<Rightarrow> ('io, 'tls, 'json) conn_error \<Rightarrow> string"
where
  "error_display D (ConnErr s) = s"
| "error_display D (IoError e) = d_io D e"
| "error_display D (TlsError e) = d_tls D e"
| "error_display D (JsonError e) = d_json D e"

lemma error_display_description: "error_display D e = error_description D e"
  by (cases e) simp_all

record identify_state =
  is_tls :: bool
  is_auth :: bool

definition identify_state_new :: "bool \<Rightarrow> bool \<Rightarrow> identify_state" where
  "identify_state_new t a = \<lparr>is_tls = False, is_auth = False\<rparr>"

datatype magic_state = MagicState

definition magic_state_new :: magic_state where
  "magic_state_new = MagicState"

definition magic_to :: "magic_state \<Rightarrow> identify_state" where
  "magic_to m = identify_state_new False False"

record auth_resp =
  identity :: string
  identity_url :: string
  permission_count :: u32

section \<open>The asynchronous context\<close>

text \<open>
  The sentinel is behind a lock of its own, which is poisoned if another user of the context
  has panicked with it; the command has been sent by then.
\<close>

record context_async =
  ca_poisoned :: bool

definition context_async_new :: context_async where
  "context_async_new = \<lparr>ca_poisoned = False\<rparr>"

definition context_async_send :: "context_async \<Rightarrow> nsq_cmd \<Rightarrow> 'h pool \<Rightarrow> panic option \<times> 'h pool" where
  "context_async_send c a p =
     (let p1 = p\<lparr>p_cmds := ch_send (as_cmd a) (p_cmds p), p_sent := p_sent p @ [as_cmd a]\<rparr> in
      if ca_poisoned c then (Some LockPoisoned, p1)
      else (None, p1\<lparr>p_sentinel := ch_send () (p_sentinel p1)\<rparr>))"

text \<open>The default of the asynchronous \<open>Consumer\<close> for a message with too many attempts.\<close>

definition on_max_attemps_async :: "context_async \<Rightarrow> msg \<Rightarrow> 'h pool \<Rightarrow> panic option \<times> 'h pool" where
  "on_max_attemps_async c m p = context_async_send c (Touch (msg_id m)) p"

lemma context_async_like_context:
  "context_async_send context_async_new a p = (None, context_send a p)"
  "on_max_attemps_async context_async_new m p = (None, on_max_attemps m p)"
  by (simp_all add: context_async_send_def context_async_new_def context_send_def
      on_max_attemps_async_def on_max_attemps_def)

lemma context_async_poisoned:
  "ca_poisoned c \<Longrightarrow> fst (context_async_send c a p) = Some LockPoisoned \<and>
     p_cmds (snd (context_async_send c a p)) = p_cmds p @ [as_cmd a] \<and>
     p_sentinel (snd (context_async_send c a p)) = p_sentinel p"
  by (simp add: context_async_send_def ch_send_def)

end
