(* ===== verification/Old_Examples.thy ===== *)
theory Old_Examples
  imports Examples
begin

text \<open>
  The examples written for the former actix API of the crate:
  \<open>examples/reader/src/main.rs\<close>, and \<open>consumer.rs\<close> and \<open>reader.rs\<close> of
  \<open>examples/consumer/src\<close>. An actor handles the messages of its mailbox one by one; what a
  handler does is a list of effects: a line printed, a command sent to the connection, a
  subscription to one kind of its messages. How a message is formatted with \<open>{:?}\<close> is a parameter,
  and the payloads of the notes are given by their formatted text.
\<close>

section \<open>Actors\<close>

datatype connection_note = InFlight u32 | OnAuth string | OnIdentify string | OnBackoff | OnResume

datatype topic_kind = MsgKind | InFlightKind | OnAuthKind | OnIdentifyKind

datatype effect = Print string | DoSend nsq_cmd | DoReady u32 | Listen topic_kind

fun sent_by :: "effect list \<Rightarrow> nsq_cmd list" where
  "sent_by [] = []"
| "sent_by (DoSend a # es) = a # sent_by es"
| "sent_by (e # es) = sent_by es"

lemma sent_by_append [simp]: "sent_by (es @ es') = sent_by es @ sent_by es'"
  by (induction es rule: sent_by.induct) simp_all

section \<open>The reader of \<open>examples/reader\<close>\<close>

definition old_reader_started :: "effect list" where
  "old_reader_started = [Listen MsgKind, Listen OnAuthKind]"

definition old_reader_msg :: "(msg \<Rightarrow> string) \<Rightarrow> msg \<Rightarrow> effect list" where
  "old_reader_msg dbg m =
     Print (''MyReader: '' @ dbg m) #
     (case from_utf8 (msg_body m) of
        Some body \<Rightarrow> [Print (''utf8 msg: '' @ body)]
      | None \<Rightarrow> []) @
     [DoSend (Fin (msg_id m))]"

definition old_reader_auth :: "string \<Rightarrow> effect list" where
  "old_reader_auth s = [Print (''authenticated: '' @ s)]"

text \<open>The arguments of \<open>Connection::new\<close> and of the four readers that \<open>main\<close> starts.\<close>

record connection_args =
  a_topic :: string
  a_channel :: string
  a_addr :: string
  a_config :: "config option"
  a_secret :: "string option"
  a_rdy :: "u32 option"

definition old_reader_main :: "string option \<Rightarrow> connection_args \<times> (u64 \<times> string) list" where
  "old_reader_main host =
     (\<lparr>a_topic = ''test'', a_channel = ''test'', a_addr = ''0.0.0.0:4150'',
       a_config = Some (with_client_id ''consumer'' (config_new host)), a_secret = None, a_rdy = Some 3\<rparr>,
      [(2, ''1''), (0, ''2''), (0, ''3''), (0, ''4'')])"

section \<open>The reader of \<open>examples/consumer\<close>\<close>

definition nsq_reader_started :: "effect list" where
  "nsq_reader_started = [Print ''Reader started'', Listen MsgKind, Listen OnIdentifyKind]"

definition nsq_reader_identify :: "string \<Rightarrow> effect list" where
  "nsq_reader_identify cfg = [Print (''nofify: '' @ cfg)]"

text \<open>The timestamp is parsed, and the result dropped.\<close>

definition nsq_reader_msg :: "(msg \<Rightarrow> string) \<Rightarrow> msg \<Rightarrow> effect list" where
  "nsq_reader_msg dbg m = [Print (''MyReader: '' @ dbg m), DoSend (Fin (msg_id m))]"

section \<open>The consumer of \<open>examples/consumer\<close>\<close>

definition rdy_consumer_started :: "effect list" where
  "rdy_consumer_started =
     [Print ''Consumer Started'', Listen InFlightKind, Listen OnAuthKind, Listen OnIdentifyKind]"

text \<open>The handler for \<open>OnIdentify\<close> is commented out.\<close>

fun rdy_consumer_note :: "connection_note \<Rightarrow> effect list" where
  "rdy_consumer_note (InFlight n) = [Print (''in_flight: '' @ fmt_u32 n)]"
| "rdy_consumer_note (OnAuth s) = [Print (''authenticated: '' @ s)]"
| "rdy_consumer_note OnBackoff = [Print ''backoff activated'']"
| "rdy_consumer_note OnResume = [Print ''resuming'']"
| "rdy_consumer_note (OnIdentify s) = []"

definition rdy_consumer_set_rdy :: "u32 \<Rightarrow> effect list" where
  "rdy_consumer_set_rdy n = [DoReady n]"

section \<open>What the server is sent\<close>

text \<open>
  Both readers finish every message of their mailbox once and in order, like the reader of the
  current example, and send nothing else; the consumer only passes on the counts it is told, one \<open>Ready\<close> each.
\<close>

lemma old_readers_finish:
  "sent_by (concat (map (old_reader_msg dbg) ms)) = map (\<lambda>m. Fin (msg_id m)) ms"
  "sent_by (concat (map (nsq_reader_msg dbg) ms)) = map (\<lambda>m. Fin (msg_id m)) ms"
  by (induction ms) (simp_all add: old_reader_msg_def nsq_reader_msg_def split: option.split)

lemma old_readers_like_my_reader:
  "my_reader_on_msg h m = (sent_by (old_reader_msg dbg m), Some h)"
  "my_reader_on_msg h m = (sent_by (nsq_reader_msg dbg m), Some h)"
  using old_readers_finish [of dbg "[m]"] by (simp_all add: my_reader_on_msg_def)

fun ready_counts :: "effect list \<Rightarrow> u32 list" where
  "ready_counts [] = []"
| "ready_counts (DoReady n # es) = n # ready_counts es"
| "ready_counts (e # es) = ready_counts es"

lemma ready_counts_append [simp]: "ready_counts (es @ es') = ready_counts es @ ready_counts es'"
  by (induction es rule: ready_counts.induct) simp_all

lemma rdy_consumer_passes_on:
  "ready_counts (concat (map rdy_consumer_note ns) @ concat (map rdy_consumer_set_rdy rs)) = rs"
  "sent_by (concat (map rdy_consumer_note ns) @ concat (map rdy_consumer_set_rdy rs)) = []"
proof -
  have "ready_counts (rdy_consumer_note x) = [] \<and> sent_by (rdy_consumer_note x) = []" for x
    by (cases x) simp_all
  then have "ready_counts (concat (map rdy_consumer_note ns)) = [] \<and>
      sent_by (concat (map rdy_consumer_note ns)) = []"
    by (induction ns) simp_all
  moreover have "ready_counts (concat (map rdy_consumer_set_rdy rs)) = rs \<and>
      sent_by (concat (map rdy_consumer_set_rdy rs)) = []"
    by (induction rs) (simp_all add: rdy_consumer_set_rdy_def)
  ultimately show "ready_counts (concat (map rdy_consumer_note ns) @ concat (map rdy_consumer_set_rdy rs)) = rs"
    "sent_by (concat (map rdy_consumer_note ns) @ concat (map rdy_consumer_set_rdy rs)) = []"
    by simp_all
qed

end
