(* ===== verification/Spec2Isabelle.thy ===== *)
theory Spec2Isabelle
  imports Client_Props Run_Stream Reader_Program Silence Process Dormant Old_Examples
begin

text \<open>
  A model of \<open>nsq-client-rs\<close>, a client library in Rust for the message queue NSQ, and the
  theorems that say what it does.

  THE PROGRAM. A \<open>Client\<close> (\<open>src/src/client.rs\<close>) owns the configuration and the ends of four
  channels. \<open>Client::run\<close> connects a socket (\<open>src/src/conn.rs\<close>, \<open>connect\<close>), goes through the
  handshake of the protocol (magic, IDENTIFY, optionally TLS and AUTH, SUB, RDY) and then polls:
  a readable socket is read and decoded into frames (\<open>Conn::read\<close>, \<open>Conn::decode\<close>), messages go
  to the readers over the message channel, heartbeats are answered, and commands that wait on
  the command channel are written (\<open>Conn::write_messages\<close>, \<open>src/src/codec.rs\<close>). Consumer and
  producer threads (\<open>spawn\<close>, \<open>spawn_producer\<close>) run the user's handlers
  (\<open>src/src/reader.rs\<close>, \<open>src/src/producer.rs\<close>), which send commands through a \<open>Context\<close>; two
  waker threads turn commands and close requests into events of the poll. All threads share
  the lock \<open>CONNECTED\<close>.

  THE THEORIES, in the order in which they import each other.
  \<^item> \<open>Prelude\<close>: machine integers at their width, panics, sequencing, big endian numbers, and
    \<open>invariant_system\<close>, the rule of all invariance proofs. \<open>Rust_Text\<close>: UTF-8 and formatting.
  \<^item> \<open>Config\<close> (\<open>config.rs\<close>), \<open>Runtime\<close> (what comes from outside the repository: \<open>BytesMut\<close>,
    \<open>serde_json\<close>, the build profile), \<open>Msgs\<close> (\<open>msgs.rs\<close>), \<open>Codec\<close> (\<open>codec.rs\<close>, with the
    contract \<open>wire_writer\<close> every writer keeps), \<open>Io\<close> (channels, with the contract \<open>fifo\<close>, and
    sockets as scripts of what they answer).
  \<^item> \<open>Conn\<close> (\<open>conn.rs\<close>): the record \<open>conn\<close>, one definition per method, \<open>socket_connect\<close> and
    \<open>connect\<close>. \<open>Conn_Write\<close> and \<open>Conn_Read\<close>: what it puts on the wire and what it makes of
    the bytes read. \<open>Wire\<close>: the grammar of the protocol as a receiver parses it, an abstract
    specification of the writers. \<open>Conn_Props\<close>, \<open>Conn_Ledger\<close> (any sequence of operations),
    \<open>Conn_Stream\<close> (no assumption on the bytes): the properties of a connection.
  \<^item> \<open>Client\<close>: \<open>Client::run\<close>, one definition per branch of its two loops; \<open>plain_event\<close> and
    \<open>tls_event\<close> are one iteration over an event. \<open>Client_Machine\<close>: the graph of the handshake
    states and the invariants of the loop. \<open>Client_Handshake\<close> and \<open>Client_Session\<close>: whole
    handshakes, for both loops through the locale \<open>handshake_rounds\<close>. \<open>Client_Props\<close>:
    heartbeats, closing, failures, and where the two loops agree. \<open>Client_Traffic\<close>: what one
    event reads, and what it gives to the socket, in batches of which the socket takes a part.
  \<^item> \<open>Workers\<close>: the threads as program counters, the lock with poisoning, every interleaving as
    a schedule. A call of a handler with the commands it sends is one step. \<open>Workers_Props\<close>:
    mutual exclusion, order, the stop, announcements to the poll. \<open>Workers_Live\<close>:
    progress under fair schedules. \<open>Process\<close>: several clients in one process, with one lock.
    \<open>Examples\<close>: the handlers and the \<open>main\<close> functions of the example programs;
    \<open>Old_Examples\<close>: those written for a former API.
  \<^item> \<open>System\<close> and \<open>System_Props\<close>: the event loop and the threads together, joined by the
    channels; the theorems from the server to the handlers and back. \<open>System_Flush\<close>: a waker's
    event writes all that waits. \<open>Counters\<close>: what \<open>in_flight\<close> and \<open>processed\<close> say over the life
    of a client, and that they stay in range when handlers send at most one command for a
    message. \<open>Wakeups\<close>: no command waits unannounced. \<open>Reader_Program\<close>: handlers that finish every message, as those of the example
    consumer; every message is finished in the end. \<open>Silence\<close>: a missed heartbeat ends the
    readers and not the client. \<open>Run_Stream\<close>: the steps of the system are those of \<open>run\<close>.
  \<^item> \<open>Dormant\<close>: the modules \<open>lib.rs\<close> does not compile (\<open>tls.rs\<close>, \<open>error.rs\<close>, \<open>state.rs\<close>,
    \<open>auth.rs\<close>, \<open>async_context.rs\<close>).

  WHAT IS SHOWN. End to end: handlers are given the messages of the server's stream, in order,
  once each, whatever is sent and however it is cut and interleaved; what is written are batches
  of whole commands, of which a socket may cut off the end: the magic, requests of the client's
  own, and the commands of the handlers in the order in which they were sent; an event of the
  waker writes all that wait, on any socket and without a panic, and no command waits without
  being announced to the waker or the poll; a consumer that finishes its messages has all of
  them, if they can be decoded, finished on the wire in the end, and the counters stay in their
  range; a missed heartbeat ends the readers for good while \<open>run\<close> goes on; a close request
  ends the loop and, under fair scheduling, all consumers, after every message delivered before
  it. \<open>run\<close> loses and invents nothing it reads. In a process with several clients the stop of
  one ends the handlers of all, since they share the lock. Components: decoding refines the list
  of frames of the stream; writing refines the
  reference encoding, which the grammar of the protocol parses back; both handshakes send
  exactly their requests; states of the handshake never go back; at most one thread holds the
  lock; what a connection hands on is well formed. Errors: which inputs panic, exit or stall the client.
  Some of these are defects, which the theorems state as the code has them: a frame that needs
  several reads stalls or panics, \<open>in_flight\<close> underflows for producers, an MPUB of one message
  is malformed, commands can overtake IDENTIFY, a short message poisons the lock, an idle
  consumer keeps the wakers waiting.

  BOUNDS. Lengths are natural numbers; where the code casts or adds at a width, the model does
  too (\<open>put_len\<close>, \<open>fold_sizes\<close>, \<open>i32_as_usize\<close>, \<open>sub_usize\<close>), in checked and unchecked builds.
  Hypotheses such as \<open>length body + 34 < 2 ^ 31\<close> keep a size in the field that carries it, and
  those with \<open>2 ^ 63\<close> keep buffers in the address space. Loops are total functions: \<open>decode\<close>
  takes at least eight bytes a round (\<open>decode_rounds\<close> counts them), \<open>write_message_loop\<close> and \<open>connect_loop\<close> are structural;
  \<open>run_loop\<close> follows the list of polls it is given, and \<open>tls_connect\<close> the outcomes of the
  handshake, with \<open>None\<close> when they are used up. In \<open>Workers_Live\<close> three fair rounds per
  message and three more are enough, since each round of a busy pool lowers the measure
  \<open>work\<close>, which is at most three per message and two.

  NOT MODELLED. The insides of \<open>mio\<close>, \<open>native_tls\<close>, \<open>net2\<close>, \<open>backoff\<close>, \<open>serde_json\<close>, \<open>BytesMut\<close>,
  \<open>webpki\<close> and \<open>rustls\<close>, of which the documented behaviour is a hypothesis (\<open>reserve_law\<close>,
  \<open>reserve_keeps\<close>, \<open>split_law\<close>) or an input; logging; the results of \<open>reregister\<close>, which the
  code ignores; whether shutting a stream down succeeds, which the code ignores or logs; the event
  loop taking some of the commands of one call of a handler before the call has sent the others;
  \<open>lib.rs\<close>, which only declares and exports modules; and for the examples written
  for a former API what its \<open>Connection\<close> does, which is not in the repository.
\<close>

section \<open>From the socket to the handler and back\<close>

text \<open>An event of the waker for commands that brings the commands \<open>ms\<close>.\<close>

definition cmds_ev :: "nat \<Rightarrow> cmd list \<Rightarrow> event" where
  "cmds_ev t ms = (wr_ev t)\<lparr>ev_token := CLIENT_TOKEN, ev_cmds := ms\<rparr>"

definition one_consumer :: "unit pool" where
  "one_consumer = spawn 1 () pool_new"

text \<open>A started connection with nothing waiting, on a socket that accepts what is written.\<close>

definition at_rest :: "run \<Rightarrow> bool" where
  "at_rest st \<longleftrightarrow> cstate st = SStarted \<and> r_buf (r_conn st) = [] \<and> conn_s (r_conn st) = [] \<and>
     conn_r (r_conn st) = [] \<and> in_flight (r_conn st) = 0 \<and> processed (r_conn st) = 0 \<and>
     bm_wf (w_buf (r_conn st)) \<and> bm_data (w_buf (r_conn st)) = [] \<and> s_wr (r_sock st) = []"

lemma read_message:
  assumes "at_rest st" "s_in (r_sock st) = RdData (enc_frame (FRAME_TYPE_MESSAGE, b)) # ins"
    and "length b + 8 < 2 ^ 31" "length b + 8 \<le> unat (output_buffer_size (conn_config (r_conn st)))"
  shows "plain_event X (rd_ev t) st = Continue
    (st\<lparr>r_conn := (r_conn st)\<lparr>conn_s := [BytesMsg (msg_timeout (r_conn st)) b], in_flight := 1\<rparr>,
       r_sock := (r_sock st)\<lparr>s_in := ins\<rparr>, r_interest := Writable\<rparr>)"
proof -
  let ?f = "(FRAME_TYPE_MESSAGE, b)" and ?c = "r_conn st"
  have rest: "r_buf ?c = []" "conn_s ?c = []" "in_flight ?c = 0" "conn_state ?c = SStarted"
    using assms(1) by (simp_all add: at_rest_def)
  have len: "length (enc_frame ?f) = length b + 8" by (simp add: enc_frame_def)
  have rd: "sock_read (unat (output_buffer_size (conn_config ?c))) (r_sock st) =
      (Inr (enc_frame ?f), (r_sock st)\<lparr>s_in := ins\<rparr>)"
    using assms(2,4) len by (simp add: sock_read_def)
  have same: "?c\<lparr>r_buf := []\<rparr> = ?c" using rest(1) by simp
  have "feed X (enc_frame ?f) ?c = Inr (frames_effect [?f] (?c\<lparr>r_buf := []\<rparr>))"
    by (rule feed_frames) (use assms(3) len rest in
      \<open>simp_all add: frame_fits_def waits_def frames_ok_def delivered_def\<close>)
  also have "frames_effect [?f] (?c\<lparr>r_buf := []\<rparr>) =
      ?c\<lparr>conn_s := [BytesMsg (msg_timeout ?c) b], in_flight := 1\<rparr>"
    using rest by (simp add: same frames_effect_def delivered_def answer_of_def is_heartbeat_def
        List.map_filter_simps)
  finally have "read_tcp X ?c (r_sock st) = Inr (Inr (length b + 8),
      ?c\<lparr>conn_s := [BytesMsg (msg_timeout ?c) b], in_flight := 1\<rparr>, (r_sock st)\<lparr>s_in := ins\<rparr>)"
    using rd len by (subst read_tcp_feed [OF rd]) auto
  then show ?thesis
    using rest(4) by (simp add: plain_event_rd plain_read_def after_read_def)
qed

lemma consume_one:
  assumes "decode_msg X b = Inr (ts, att, ident, body)" "b \<noteq> []"
    and "q = schedule X example_handlers [Deliver (BytesMsg timeout b), Run 0, Run 0, Run 0] one_consumer"
  shows "p_cmds q = [as_cmd (Fin ident)]" "p_handled q = [\<lparr>msg_timeout_ms = timeout,
      msg_timestamp = ts, msg_attemps = att, msg_id = ident, msg_body = body\<rparr>]"
  using assms(1,2)
  by (simp_all add: assms(3) schedule_def act_def run_thread_def thread_step_defs one_consumer_def
      spawn_def pool_new_def ch_send_def example_handlers_def my_reader_on_msg_def context_send_def)

lemma flush_finish:
  assumes "reserve_law X" "at_rest st0" "length ident = 16"
    and "st = st0\<lparr>r_conn := (r_conn st0)\<lparr>conn_s := ms, in_flight := 1\<rparr>, r_sock := (r_sock st0)\<lparr>s_in := ins\<rparr>,
      r_interest := Writable\<rparr>"
  obtains st2 where "plain_event X (cmds_ev t [as_cmd (Fin ident)]) st = Continue st2"
    "s_out (r_sock st2) = s_out (r_sock st0) @ as_bytes (''FIN '' @ ident) @ [10]"
    "in_flight (r_conn st2) = 0" "processed (r_conn st2) = 1" "cstate st2 = SStarted"
proof -
  let ?m = "as_cmd (Fin ident)" and ?ev = "cmds_ev t [as_cmd (Fin ident)]"
  let ?c = "r_conn (arrive ?ev st)"
  have fin: "wire_cmd (RawCmd ?m) = as_bytes (''FIN '' @ ident) @ [10]" "cmd_ok (RawCmd ?m)"
    by (simp_all add: wire_cmd_def wire_line_def cmd_ok_def)
  have c: "conn_r ?c = [?m]" "bm_wf (w_buf ?c)" "bm_data (w_buf ?c) = []" "in_flight ?c = 1"
      "processed ?c = 0" "conn_state ?c = SStarted"
    using assms(2) by (simp_all add: assms(4) arrive_def cmds_ev_def at_rest_def)
  have sock: "s_wr (r_sock st) = []" "s_out (r_sock st) = s_out (r_sock st0)"
    using assms(2) by (simp_all add: assms(4) at_rest_def)
  have ok: "batch_ok (conn_r ?c)" "counters_ok X (length (conn_r ?c)) ?c"
    using assms(3) fin by (simp_all add: c batch_ok_def counters_ok_def)
  obtain c' where c': "write_messages X (ev_clock ?ev) ?c (r_sock st) = Inr (c', (r_sock st)\<lparr>s_out :=
        s_out (r_sock st) @ concat (map (\<lambda>m. wire_cmd (RawCmd m)) (conn_r ?c))\<rparr>)"
      "in_flight c' = in_flight ?c - word_of_nat (length (conn_r ?c))"
      "processed c' = processed ?c + word_of_nat (length (conn_r ?c))" "conn_state c' = conn_state ?c"
    by (rule write_messages_accepting [OF assms(1) c(2,3) ok sock(1)])
  have "plain_event X ?ev st = flow_of (flush_commands X ?ev (arrive ?ev st)) Continue"
    by (simp add: plain_event_def Let_def) (simp add: cmds_ev_def token_defs)
  also have "\<dots> = Continue ((arrive ?ev st)\<lparr>r_conn := c', r_sock := (r_sock st)\<lparr>s_out :=
        s_out (r_sock st) @ wire_cmd (RawCmd ?m)\<rparr>\<rparr>)"
    using c'(1) [unfolded c(1)] by (simp add: flush_commands_def arrive_fields(1))
  finally show ?thesis
    by (rule that) (use c' c sock(2) fin in simp_all)
qed

text \<open>
  C1: a message that nsqd sends is handled once and finished. Take a started connection at rest:
  both counters are zero, nothing is in the buffers or queues, and the socket takes all that is
  written; and one consumer thread with the reader of the example. When the connection reads a
  MESSAGE frame with an identifier of 16 characters of text, which fits one read and the size field,
  the event loop hands it to the readers; the consumer, running next, is given exactly its
  timestamp, attempts, identifier and body; and the next event of the waker writes the command it
  answers with, \<open>FIN\<close> with the same identifier. Then nothing is in flight and one
  message counts as processed.
\<close>

theorem message_handled_and_finished:
  assumes "reserve_law X" "at_rest st" "length ident = 16" "valid_str ident"
    and "s_in (r_sock st) =
      RdData (enc_frame (FRAME_TYPE_MESSAGE, encode_msg ts att ident body)) # ins"
    and "length body + 34 < 2 ^ 31"
    and "length body + 34 \<le> unat (output_buffer_size (conn_config (r_conn st)))"
  shows "\<exists>st1 q st2. plain_event X (rd_ev t) st = Continue st1 \<and>
    q = schedule X example_handlers (map Deliver (conn_s (r_conn st1)) @ [Run 0, Run 0, Run 0])
      one_consumer \<and>
    p_handled q = [\<lparr>msg_timeout_ms = msg_timeout (r_conn st), msg_timestamp = ts,
      msg_attemps = att, msg_id = ident, msg_body = body\<rparr>] \<and>
    plain_event X (cmds_ev t (p_cmds q)) st1 = Continue st2 \<and>
    s_out (r_sock st2) = s_out (r_sock st) @ as_bytes (''FIN '' @ ident) @ [10] \<and>
    in_flight (r_conn st2) = 0 \<and> processed (r_conn st2) = 1 \<and> cstate st2 = SStarted"
proof -
  let ?b = "encode_msg ts att ident body"
  have len: "length ?b = length body + 26" using assms(3) by (simp add: encode_msg_def)
  let ?st1 = "st\<lparr>r_conn := (r_conn st)\<lparr>conn_s := [BytesMsg (msg_timeout (r_conn st)) ?b], in_flight := 1\<rparr>,
    r_sock := (r_sock st)\<lparr>s_in := ins\<rparr>, r_interest := Writable\<rparr>"
  have read: "plain_event X (rd_ev t) st = Continue ?st1"
    by (rule read_message [OF assms(2,5)]) (use assms(6,7) len in simp_all)
  let ?q = "schedule X example_handlers (map Deliver (conn_s (r_conn ?st1)) @ [Run 0, Run 0, Run 0])
    one_consumer"
  have "?b \<noteq> []" using len by force
  from consume_one [OF decode_encode [OF assms(3,4)] this, of ?q X "msg_timeout (r_conn st)"]
  have q: "p_cmds ?q = [as_cmd (Fin ident)]" "p_handled ?q = [\<lparr>msg_timeout_ms = msg_timeout (r_conn st),
      msg_timestamp = ts, msg_attemps = att, msg_id = ident, msg_body = body\<rparr>]"
    by simp_all
  obtain st2 where "plain_event X (cmds_ev t [as_cmd (Fin ident)]) ?st1 = Continue st2"
    "s_out (r_sock st2) = s_out (r_sock st) @ as_bytes (''FIN '' @ ident) @ [10]"
    "in_flight (r_conn st2) = 0" "processed (r_conn st2) = 1" "cstate st2 = SStarted"
    by (rule flush_finish [OF assms(1-3) refl])
  with read q show ?thesis by metis
qed

definition demo_message :: bytes where
  "demo_message = encode_msg 5 1 ''0123456789abcdef'' [7]"

definition demo_reading :: run where
  "demo_reading =
     (demo_run SStarted [RdData (enc_frame (FRAME_TYPE_MESSAGE, demo_message))])\<lparr>r_conn :=
       demo_conn\<lparr>conn_state := SStarted\<rparr>\<rparr>"

theorem message_handled_and_finished_witness:
  "\<exists>st1 (q :: unit pool) st2. plain_event demo_ext (rd_ev 1) demo_reading = Continue st1 \<and>
     p_handled q = [\<lparr>msg_timeout_ms = 0, msg_timestamp = 5, msg_attemps = 1,
       msg_id = ''0123456789abcdef'', msg_body = [7]\<rparr>] \<and>
     plain_event demo_ext (cmds_ev 1 (p_cmds q)) st1 = Continue st2 \<and>
     s_out (r_sock st2) = as_bytes ''FIN 0123456789abcdef'' @ [10]"
proof -
  have "at_rest demo_reading"
    by (simp add: demo_reading_def at_rest_def demo_sock_def)
      (simp add: demo_conn_def conn_new_def)
  from message_handled_and_finished [OF demo_laws(1) this, of "''0123456789abcdef''" 5 1 "[7]" "[]" 1]
  show ?thesis
    by (simp add: demo_reading_def demo_message_def demo_sock_def valid_str_def utf8_ranges_def)
      (elim exE conjE, intro exI conjI, assumption+)
qed

end
